theory Spec2Isabelle
  imports Main
begin

section \<open>Values exchanged with devices and operators\<close>

text \<open>
  The server of \<^verbatim>\<open>server_cloud.py\<close> handles whatever \<^verbatim>\<open>json.loads\<close> returns. A parsed
  value is \<^verbatim>\<open>None\<close>, a \<^verbatim>\<open>bool\<close>, an \<^verbatim>\<open>int\<close>, a \<^verbatim>\<open>str\<close>, a \<^verbatim>\<open>list\<close> or a
  \<^verbatim>\<open>dict\<close> with string keys. A dict is kept as the list of its items in dict order;
  \<^verbatim>\<open>json.loads\<close> produces dicts whose keys are distinct. Numbers with a fractional part
  have no representation here.
\<close>

datatype json =
    JNull
  | JBool bool
  | JInt int
  | JStr string
  | JArr "json list"
  | JObj "(string \<times> json) list"

text \<open>
  Python's \<^verbatim>\<open>==\<close> on these values: \<^verbatim>\<open>True == 1\<close> and \<^verbatim>\<open>False == 0\<close>, lists are
  compared element by element, dicts by their key sets and the values under each key.
\<close>

fun py_eq :: "json \<Rightarrow> json \<Rightarrow> bool" where
  "py_eq JNull b = (case b of JNull \<Rightarrow> True | _ \<Rightarrow> False)"
| "py_eq (JBool x) b =
     (case b of JBool y \<Rightarrow> x = y | JInt j \<Rightarrow> (if x then 1 else 0) = j | _ \<Rightarrow> False)"
| "py_eq (JInt i) b =
     (case b of JBool y \<Rightarrow> i = (if y then 1 else 0) | JInt j \<Rightarrow> i = j | _ \<Rightarrow> False)"
| "py_eq (JStr s) b = (case b of JStr t \<Rightarrow> s = t | _ \<Rightarrow> False)"
| "py_eq (JArr xs) b =
     (case b of JArr ys \<Rightarrow> list_all2 py_eq xs ys | _ \<Rightarrow> False)"
| "py_eq (JObj kvs) b =
     (case b of
        JObj kws \<Rightarrow>
          length kvs = length kws \<and>
          list_all (\<lambda>(k, v). case map_of kws k of None \<Rightarrow> False | Some w \<Rightarrow> py_eq v w) kvs
      | _ \<Rightarrow> False)"

text \<open>Truth value of a parsed value, as \<^verbatim>\<open>if x\<close> tests it.\<close>

fun truthy :: "json \<Rightarrow> bool" where
  "truthy JNull = False"
| "truthy (JBool b) = b"
| "truthy (JInt i) = (i \<noteq> 0)"
| "truthy (JStr s) = (s \<noteq> [])"
| "truthy (JArr xs) = (xs \<noteq> [])"
| "truthy (JObj kvs) = (kvs \<noteq> [])"

text \<open>
  The exceptions the handlers can meet. \<^verbatim>\<open>SendError\<close> stands for whatever
  \<^verbatim>\<open>ws.send_str\<close> raises on a broken connection; \<^verbatim>\<open>KeyError\<close> is raised by \<^verbatim>\<open>del\<close> on
  a key that is absent.
\<close>

datatype exn =
    JSONDecodeError
  | AttributeError
  | TypeError
  | TimeoutError
  | SendError
  | KeyError
  | DecodeError
  | OSError

text \<open>
  \<^verbatim>\<open>data.get(key, default)\<close>: only a dict has the method; on any other value the
  attribute lookup raises.
\<close>

definition get_item :: "(string \<times> json) list \<Rightarrow> string \<Rightarrow> json \<Rightarrow> json" where
  "get_item kvs k dflt = (case map_of kvs k of None \<Rightarrow> dflt | Some v \<Rightarrow> v)"

definition dict_get :: "json \<Rightarrow> string \<Rightarrow> json \<Rightarrow> exn + json" where
  "dict_get data k dflt =
     (case data of
        JObj kvs \<Rightarrow> Inr (get_item kvs k dflt)
      | _ \<Rightarrow> Inl AttributeError)"

text \<open>
  Keys of the dict \<^verbatim>\<open>device_commands\<close>. A list or a dict is unhashable and raises
  \<^verbatim>\<open>TypeError\<close> when used as a key; \<^verbatim>\<open>True\<close> and \<^verbatim>\<open>1\<close> are the same key, as are
  \<^verbatim>\<open>False\<close> and \<^verbatim>\<open>0\<close>.
\<close>

datatype pykey = KNone | KInt int | KStr string

fun key_of :: "json \<Rightarrow> pykey option" where
  "key_of JNull = Some KNone"
| "key_of (JBool b) = Some (KInt (if b then 1 else 0))"
| "key_of (JInt i) = Some (KInt i)"
| "key_of (JStr s) = Some (KStr s)"
| "key_of (JArr xs) = None"
| "key_of (JObj kvs) = None"

text \<open>\<^verbatim>\<open>str(n)\<close> for a length.\<close>

fun str_nat :: "nat \<Rightarrow> string" where
  "str_nat n =
     (if n < 10 then [''0123456789'' ! n]
      else str_nat (n div 10) @ [''0123456789'' ! (n mod 10)])"

declare str_nat.simps [simp del]

section \<open>Library functions and the outside world\<close>

text \<open>
  The functions of the Python library that the server calls and whose results it only
  passes on: \<^verbatim>\<open>json.loads\<close> (\<open>None\<close> when it raises), \<^verbatim>\<open>json.dumps\<close>,
  \<^verbatim>\<open>base64.b64decode\<close> (\<open>None\<close> when it raises), \<^verbatim>\<open>str\<close> on a parsed value and on an
  exception, and whether a file under the upload folder can be written.
\<close>

record env =
  loads :: "string \<Rightarrow> json option"
  dumps :: "json \<Rightarrow> string"
  b64decode :: "json \<Rightarrow> string option"
  str_of :: "json \<Rightarrow> string"
  str_exn :: "exn \<Rightarrow> string"
  writable :: "string \<Rightarrow> bool"

section \<open>Server state\<close>

type_synonym ws = nat

record info =
  device_id :: json
  connected_at :: string
  address :: string

record queued =
  command :: json
  params :: json
  timestamp :: string

text \<open>
  What the server does to the outside, in order: frames accepted by \<^verbatim>\<open>ws.send_str\<close>,
  calls of \<^verbatim>\<open>ws.close\<close>, files written, and the lines it prints.
\<close>

datatype event =
    Sent ws string
  | Closed ws
  | FileWrite string string
  | LogCommandSent json json
  | LogCommandError exn
  | LogConnected json string
  | LogQueuedSent nat json
  | LogScreenSaved string nat
  | LogNotification json json json json string
  | LogFlashlight json string string
  | LogCommandResponse json json json
  | LogInvalidJSON string
  | LogError exn
  | LogWsError
  | LogTimeout string
  | LogWsException exn
  | LogDisconnected json string

text \<open>
  A handler of \<^verbatim>\<open>websocket_handler\<close> that is suspended inside the loop over the queued
  commands, at an \<^verbatim>\<open>await ws.send_str\<close>: its locals \<^verbatim>\<open>device_id\<close>, \<^verbatim>\<open>client_addr\<close> and
  \<^verbatim>\<open>queued_count\<close>, and the commands that the loop has not sent yet. The loop runs over
  the list that was in the queue when the connection registered; \<^verbatim>\<open>send_command\<close> appends
  to a list only when no registered connection carries the identifier, so the list does not
  grow while the handler is suspended.
\<close>

record drain =
  d_device :: json
  d_addr :: string
  d_rest :: "queued list"
  d_count :: nat

text \<open>
  \<^verbatim>\<open>connected_clients\<close> is a dict keyed by the connection object; its items are kept in
  insertion order, which is the order \<^verbatim>\<open>send_command\<close> searches them in.
  \<^verbatim>\<open>device_commands\<close> is a dict from device identifier to the list of queued commands.
  \<open>draining\<close> holds the handlers that are suspended in their replay loop, by connection.
\<close>

record state =
  connected_clients :: "(ws \<times> info) list"
  device_commands :: "pykey \<rightharpoonup> queued list"
  trace :: "event list"
  draining :: "ws \<rightharpoonup> drain"

definition init_state :: state where
  "init_state =
     \<lparr>connected_clients = [], device_commands = Map.empty, trace = [], draining = Map.empty\<rparr>"

text \<open>\<^verbatim>\<open>d[k] = v\<close> on an insertion-ordered dict: an existing key keeps its place.\<close>

fun dict_set :: "('k \<times> 'v) list \<Rightarrow> 'k \<Rightarrow> 'v \<Rightarrow> ('k \<times> 'v) list" where
  "dict_set [] k v = [(k, v)]"
| "dict_set ((k', v') # kvs) k v =
     (if k' = k then (k, v) # kvs else (k', v') # dict_set kvs k v)"

text \<open>\<^verbatim>\<open>del d[k]\<close> for a key that is present.\<close>

definition dict_del :: "('k \<times> 'v) list \<Rightarrow> 'k \<Rightarrow> ('k \<times> 'v) list" where
  "dict_del kvs k = filter (\<lambda>(k', v). k' \<noteq> k) kvs"

text \<open>
  The commands queued under a key; a key that is absent has none (\<^verbatim>\<open>send_command\<close>
  stores an empty list under an absent key before it appends).
\<close>

definition backlog :: "state \<Rightarrow> pykey \<Rightarrow> queued list" where
  "backlog st k = (case device_commands st k of None \<Rightarrow> [] | Some cs \<Rightarrow> cs)"

definition emit :: "state \<Rightarrow> event list \<Rightarrow> state" where
  "emit st es = st\<lparr>trace := trace st @ es\<rparr>"

section \<open>The operator's command endpoint\<close>

record response =
  status :: nat
  body :: json

definition json_response :: "(string \<times> json) list \<Rightarrow> response" where
  "json_response kvs = \<lparr>status = 200, body = JObj kvs\<rparr>"

text \<open>The search for the device's connection: the first item whose device_id is equal.\<close>

fun find_target :: "(ws \<times> info) list \<Rightarrow> json \<Rightarrow> ws option" where
  "find_target [] d = None"
| "find_target ((w, i) # cs) d =
     (if py_eq (device_id i) d then Some w else find_target cs d)"

definition command_msg :: "json \<Rightarrow> json \<Rightarrow> string \<Rightarrow> json" where
  "command_msg c p t =
     JObj [(''type'', JStr ''remote_command''), (''command'', c), (''params'', p),
           (''timestamp'', JStr t)]"

text \<open>
  The body of \<^verbatim>\<open>send_command\<close> after the three fields are read. \<open>now\<close> is the reading
  of the clock; \<open>send_ok\<close> says whether \<^verbatim>\<open>target_ws.send_str\<close> returns (it raises
  otherwise).
\<close>

definition dispatch ::
  "env \<Rightarrow> state \<Rightarrow> json \<Rightarrow> json \<Rightarrow> json \<Rightarrow> string \<Rightarrow> bool \<Rightarrow> (exn + response) \<times> state" where
  "dispatch e st d c p now send_ok =
     (case find_target (connected_clients st) d of
        None \<Rightarrow>
          (case key_of d of
             None \<Rightarrow> (Inl TypeError, st)
           | Some k \<Rightarrow>
               (Inr (json_response
                       [(''status'', JStr ''queued''),
                        (''message'', JStr ''Device not connected, command queued'')]),
                st\<lparr>device_commands := (device_commands st)
                     (k \<mapsto> backlog st k @ [\<lparr>command = c, params = p, timestamp = now\<rparr>])\<rparr>))
      | Some w \<Rightarrow>
          (if send_ok then
             (Inr (json_response [(''status'', JStr ''sent''), (''command'', c)]),
              emit st [Sent w (dumps e (command_msg c p now)), LogCommandSent d c])
           else (Inl SendError, st)))"

text \<open>The \<^verbatim>\<open>try\<close> block of \<^verbatim>\<open>send_command\<close>; \<open>raw\<close> is the request body.\<close>

definition send_command_try ::
  "env \<Rightarrow> state \<Rightarrow> string \<Rightarrow> string \<Rightarrow> bool \<Rightarrow> (exn + response) \<times> state" where
  "send_command_try e st raw now send_ok =
     (case loads e raw of
        None \<Rightarrow> (Inl JSONDecodeError, st)
      | Some data \<Rightarrow>
          (case dict_get data ''device_id'' (JStr ''default'') of
             Inl x \<Rightarrow> (Inl x, st)
           | Inr d \<Rightarrow>
               (case dict_get data ''command'' JNull of
                  Inl x \<Rightarrow> (Inl x, st)
                | Inr c \<Rightarrow>
                    (case dict_get data ''params'' (JObj []) of
                       Inl x \<Rightarrow> (Inl x, st)
                     | Inr p \<Rightarrow> dispatch e st d c p now send_ok))))"

text \<open>\<^verbatim>\<open>send_command\<close> with its handler: any exception becomes a reply with status 500.\<close>

definition send_command ::
  "env \<Rightarrow> state \<Rightarrow> string \<Rightarrow> string \<Rightarrow> bool \<Rightarrow> response \<times> state" where
  "send_command e st raw now send_ok =
     (case send_command_try e st raw now send_ok of
        (Inl x, st') \<Rightarrow>
          (\<lparr>status = 500, body = JObj [(''error'', JStr (str_exn e x))]\<rparr>,
           emit st' [LogCommandError x])
      | (Inr r, st') \<Rightarrow> (r, st'))"

section \<open>The device connection handler\<close>

text \<open>The message types of \<^verbatim>\<open>WSMsgType\<close>; a text message carries its data.\<close>

datatype ws_msg = TEXT string | BINARY | PING | PONG | CLOSE | CLOSING | CLOSED | ERROR

text \<open>
  What \<^verbatim>\<open>asyncio.wait_for(ws.receive(), timeout=10.0)\<close> produces: the first message, or
  the expiry of the ten seconds.
\<close>

datatype recv = Timeout | Recv ws_msg

text \<open>How a block of the handler is left: by an exception, by \<^verbatim>\<open>return ws\<close>, or at its end.\<close>

datatype flow = Raise exn | Return | Next

text \<open>
  The loop that sends the queued commands. \<open>ok i\<close> says whether the \<open>i\<close>-th call of
  \<^verbatim>\<open>ws.send_str\<close> on this connection returns; the first call that raises ends the loop.
\<close>

definition replay_msg :: "queued \<Rightarrow> json" where
  "replay_msg cmd = command_msg (command cmd) (params cmd) (timestamp cmd)"

fun replay :: "env \<Rightarrow> ws \<Rightarrow> (nat \<Rightarrow> bool) \<Rightarrow> nat \<Rightarrow> queued list \<Rightarrow> event list \<times> exn option" where
  "replay e w ok i [] = ([], None)"
| "replay e w ok i (cmd # cs) =
     (if ok i then
        (case replay e w ok (Suc i) cs of
           (es, x) \<Rightarrow> (Sent w (dumps e (replay_msg cmd)) # es, x))
      else ([], Some SendError))"

text \<open>
  The \<^verbatim>\<open>try\<close> block of \<^verbatim>\<open>websocket_handler\<close> up to the message loop: registration and
  the sending of the queued commands. The second component is the value of the local
  variable \<^verbatim>\<open>device_id\<close> when the block is left.
\<close>

definition handshake ::
  "env \<Rightarrow> state \<Rightarrow> ws \<Rightarrow> string \<Rightarrow> recv \<Rightarrow> string \<Rightarrow> (nat \<Rightarrow> bool) \<Rightarrow> flow \<times> json \<times> state" where
  "handshake e st w addr first now ok =
     (case first of
        Timeout \<Rightarrow> (Raise TimeoutError, JStr ''unknown'', st)
      | Recv (TEXT s) \<Rightarrow>
          (case loads e s of
             None \<Rightarrow> (Raise JSONDecodeError, JStr ''unknown'', st)
           | Some reg_data \<Rightarrow>
               (case dict_get reg_data ''device_id''
                       (JStr (''device_'' @ str_nat (length (connected_clients st)))) of
                  Inl x \<Rightarrow> (Raise x, JStr ''unknown'', st)
                | Inr d \<Rightarrow>
                    (let st1 = emit
                           (st\<lparr>connected_clients :=
                                 dict_set (connected_clients st) w
                                   \<lparr>device_id = d, connected_at = now, address = addr\<rparr>\<rparr>)
                           [LogConnected d addr]
                     in case key_of d of
                          None \<Rightarrow> (Raise TypeError, d, st1)
                        | Some k \<Rightarrow>
                            (case device_commands st1 k of
                               None \<Rightarrow> (Next, d, st1)
                             | Some cs \<Rightarrow>
                                 (case replay e w ok 0 cs of
                                    (es, Some x) \<Rightarrow> (Raise x, d, emit st1 es)
                                  | (es, None) \<Rightarrow>
                                      (Next, d,
                                       emit (st1\<lparr>device_commands := (device_commands st1)(k := None)\<rparr>)
                                         (es @ [LogQueuedSent (length cs) d])))))))
      | Recv _ \<Rightarrow> (Return, JStr ''unknown'', emit st [Closed w]))"

text \<open>
  One text message of the loop, received at time \<open>now\<close> on the connection of device
  \<open>dev\<close>: the events it causes. Every exception is caught inside the loop.
\<close>

definition handle_text :: "env \<Rightarrow> json \<Rightarrow> string \<Rightarrow> string \<Rightarrow> event list" where
  "handle_text e dev s now =
     (case loads e s of
        None \<Rightarrow> [LogInvalidJSON (take 100 s)]
      | Some data \<Rightarrow>
          (case data of
             JObj kvs \<Rightarrow>
               (let msg_type = get_item kvs ''type'' JNull in
                if py_eq msg_type (JStr ''screen_capture'') then
                  (case b64decode e (get_item kvs ''data'' JNull) of
                     None \<Rightarrow> [LogError DecodeError]
                   | Some image_data \<Rightarrow>
                       (let filename = ''screen_'' @ str_of e dev @ ''_''
                              @ str_of e (get_item kvs ''timestamp'' JNull) @ ''.jpg'';
                            filepath = ''uploads/'' @ filename
                        in if writable e filepath
                           then [FileWrite filepath image_data,
                                 LogScreenSaved filename (length image_data)]
                           else [LogError OSError]))
                else if py_eq msg_type (JStr ''notification'') then
                  [LogNotification dev (get_item kvs ''package'' JNull)
                     (get_item kvs ''title'' JNull) (get_item kvs ''text'' JNull) now]
                else if py_eq msg_type (JStr ''flashlight'') then
                  [LogFlashlight dev
                     (if truthy (get_item kvs ''status'' JNull) then ''ON'' else ''OFF'') now]
                else if py_eq msg_type (JStr ''command_response'') then
                  [LogCommandResponse dev (get_item kvs ''command'' JNull)
                     (get_item kvs ''status'' JNull)]
                else [])
           | _ \<Rightarrow> [LogError AttributeError]))"

text \<open>
  The loop \<^verbatim>\<open>async for msg in ws\<close> over the messages that arrive, each with the time of
  its arrival. The iteration ends at a close message; an error message breaks the loop.
\<close>

fun route :: "env \<Rightarrow> json \<Rightarrow> (ws_msg \<times> string) list \<Rightarrow> event list" where
  "route e dev [] = []"
| "route e dev ((m, now) # rest) =
     (case m of
        TEXT s \<Rightarrow> handle_text e dev s now @ route e dev rest
      | ERROR \<Rightarrow> [LogWsError]
      | CLOSE \<Rightarrow> []
      | CLOSING \<Rightarrow> []
      | CLOSED \<Rightarrow> []
      | _ \<Rightarrow> route e dev rest)"

text \<open>The two \<^verbatim>\<open>except\<close> clauses and the \<^verbatim>\<open>finally\<close> clause of the handler.\<close>

definition ws_except :: "state \<Rightarrow> flow \<Rightarrow> string \<Rightarrow> state" where
  "ws_except st fl addr =
     (case fl of
        Raise x \<Rightarrow> (if x = TimeoutError then emit st [LogTimeout addr]
                     else emit st [LogWsException x])
      | _ \<Rightarrow> st)"

definition ws_finally :: "state \<Rightarrow> ws \<Rightarrow> json \<Rightarrow> string \<Rightarrow> state" where
  "ws_finally st w dev addr =
     emit
       (st\<lparr>connected_clients :=
             (if w \<in> set (map fst (connected_clients st))
              then dict_del (connected_clients st) w
              else connected_clients st)\<rparr>)
       [LogDisconnected dev addr]"

text \<open>
  The whole handler for one connection, run without interruption: \<open>first\<close> is the result
  of the first receive, \<open>frames\<close> the messages that arrive afterwards.
\<close>

definition websocket_handler ::
  "env \<Rightarrow> state \<Rightarrow> ws \<Rightarrow> string \<Rightarrow> recv \<Rightarrow> string \<Rightarrow> (nat \<Rightarrow> bool) \<Rightarrow> (ws_msg \<times> string) list \<Rightarrow> state" where
  "websocket_handler e st w addr first now ok frames =
     (case handshake e st w addr first now ok of
        (fl, dev, st1) \<Rightarrow>
          (let st2 = (case fl of Next \<Rightarrow> emit st1 (route e dev frames) | _ \<Rightarrow> st1)
           in ws_finally (ws_except st2 fl addr) w dev addr))"

section \<open>Interleaved handlers\<close>

text \<open>
  Handlers of several connections and requests run interleaved; a handler gives up control
  only where it awaits. \<^verbatim>\<open>send_command\<close> awaits the request body before it reads the two
  dicts and awaits the send after its last access to them, so its work on the dicts is one
  step. \<^verbatim>\<open>websocket_handler\<close> awaits the first message before it touches the registry,
  awaits every \<^verbatim>\<open>ws.send_str\<close> of the replay loop, which lies between the insertion into
  the registry and the \<^verbatim>\<open>del\<close> of the backlog, and then awaits the messages of its loop,
  which touches neither dict before the \<^verbatim>\<open>finally\<close> clause.
\<close>

text \<open>A handler starts with a connection object of its own.\<close>

definition fresh :: "state \<Rightarrow> ws \<Rightarrow> bool" where
  "fresh st w = (w \<notin> set (map fst (connected_clients st)) \<and> draining st w = None)"

text \<open>
  The handler run from its start to the message loop, or to its end when it does not reach
  the loop, with no other handler in between.
\<close>

definition connect ::
  "env \<Rightarrow> state \<Rightarrow> ws \<Rightarrow> string \<Rightarrow> recv \<Rightarrow> string \<Rightarrow> (nat \<Rightarrow> bool) \<Rightarrow> state" where
  "connect e st w addr first now ok =
     (case handshake e st w addr first now ok of
        (fl, dev, st1) \<Rightarrow>
          (if fl = Next then st1 else ws_finally (ws_except st1 fl addr) w dev addr))"

text \<open>
  The handler run from its start to its first \<^verbatim>\<open>await ws.send_str\<close>: the connection is in
  the registry, the backlog it found is still in the queue, and the handler is suspended in
  the loop with the whole backlog to send. When there is nothing to send the handler does
  not await before the message loop, and the run is the one above.
\<close>

definition register :: "env \<Rightarrow> state \<Rightarrow> ws \<Rightarrow> string \<Rightarrow> recv \<Rightarrow> string \<Rightarrow> state" where
  "register e st w addr first now =
     (case first of
        Recv (TEXT s) \<Rightarrow>
          (case loads e s of
             Some (JObj kvs) \<Rightarrow>
               (let d = get_item kvs ''device_id''
                          (JStr (''device_'' @ str_nat (length (connected_clients st))))
                in case key_of d of
                     Some k \<Rightarrow>
                       (case device_commands st k of
                          Some (cmd # cs) \<Rightarrow>
                            emit
                              (st\<lparr>connected_clients :=
                                    dict_set (connected_clients st) w
                                      \<lparr>device_id = d, connected_at = now, address = addr\<rparr>,
                                  draining := (draining st)
                                    (w \<mapsto> \<lparr>d_device = d, d_addr = addr, d_rest = cmd # cs,
                                            d_count = Suc (length cs)\<rparr>)\<rparr>)
                              [LogConnected d addr]
                        | _ \<Rightarrow> connect e st w addr first now (\<lambda>i. True))
                   | None \<Rightarrow> connect e st w addr first now (\<lambda>i. True))
           | _ \<Rightarrow> connect e st w addr first now (\<lambda>i. True))
      | _ \<Rightarrow> connect e st w addr first now (\<lambda>i. True))"

text \<open>A suspended handler is left by an exception: the \<^verbatim>\<open>except\<close> and \<^verbatim>\<open>finally\<close> clauses.\<close>

definition leave :: "state \<Rightarrow> ws \<Rightarrow> drain \<Rightarrow> exn \<Rightarrow> state" where
  "leave st w dr x =
     (ws_finally (ws_except st (Raise x) (d_addr dr)) w (d_device dr) (d_addr dr))
       \<lparr>draining := (draining st)(w := None)\<rparr>"

text \<open>
  After the last send: \<^verbatim>\<open>del device_commands[device_id]\<close> and the line that reports the
  replay; the handler then enters its message loop.
\<close>

definition end_replay :: "state \<Rightarrow> ws \<Rightarrow> drain \<Rightarrow> state" where
  "end_replay st w dr =
     (case key_of (d_device dr) of
        None \<Rightarrow> leave st w dr TypeError
      | Some k \<Rightarrow>
          (case device_commands st k of
             None \<Rightarrow> leave st w dr KeyError
           | Some cs \<Rightarrow>
               emit (st\<lparr>device_commands := (device_commands st)(k := None),
                        draining := (draining st)(w := None)\<rparr>)
                 [LogQueuedSent (d_count dr) (d_device dr)]))"

text \<open>
  A suspended handler is resumed: the send it awaits returns or raises, and the handler
  runs to its next await, which is the next send of the loop or, after the last send and
  the \<^verbatim>\<open>del\<close>, the message loop.
\<close>

definition replay_step :: "env \<Rightarrow> state \<Rightarrow> ws \<Rightarrow> bool \<Rightarrow> state" where
  "replay_step e st w send_ok =
     (case draining st w of
        None \<Rightarrow> st
      | Some dr \<Rightarrow>
          (case d_rest dr of
             [] \<Rightarrow> end_replay st w dr
           | cmd # cs \<Rightarrow>
               (if send_ok then
                  (let st1 = emit st [Sent w (dumps e (replay_msg cmd))]
                   in if cs = [] then end_replay st1 w dr
                      else st1\<lparr>draining := (draining st1)(w \<mapsto> dr\<lparr>d_rest := cs\<rparr>)\<rparr>)
                else leave st w dr SendError)))"

text \<open>
  The steps of the server: a whole \<^verbatim>\<open>send_command\<close>; a connection handler run without
  interruption up to its message loop (\<open>Connect\<close>), or run to its first send (\<open>Register\<close>)
  and then resumed send by send (\<open>Replay\<close>); and the message loop of a connection that has
  reached it, with the \<^verbatim>\<open>finally\<close> clause that follows it (\<open>Disconnect\<close>).
\<close>

datatype action =
    Dispatch string string bool
  | Connect ws string recv string "nat \<Rightarrow> bool"
  | Register ws string recv string
  | Replay ws bool
  | Disconnect ws "(ws_msg \<times> string) list"

fun step :: "env \<Rightarrow> state \<Rightarrow> action \<Rightarrow> state" where
  "step e st (Dispatch raw now send_ok) = snd (send_command e st raw now send_ok)"
| "step e st (Connect w addr first now ok) =
     (if fresh st w then connect e st w addr first now ok else st)"
| "step e st (Register w addr first now) =
     (if fresh st w then register e st w addr first now else st)"
| "step e st (Replay w send_ok) = replay_step e st w send_ok"
| "step e st (Disconnect w frames) =
     (case map_of (connected_clients st) w of
        None \<Rightarrow> st
      | Some i \<Rightarrow>
          (if draining st w = None
           then ws_finally (emit st (route e (device_id i) frames)) w (device_id i) (address i)
           else st))"

definition exec :: "env \<Rightarrow> action list \<Rightarrow> state" where
  "exec e acts = foldl (step e) init_state acts"

text \<open>A suspended handler resumed \<open>n\<close> times in a row, the \<open>j\<close>-th send faring as \<open>ok j\<close>.\<close>

fun resume :: "env \<Rightarrow> state \<Rightarrow> ws \<Rightarrow> (nat \<Rightarrow> bool) \<Rightarrow> nat \<Rightarrow> nat \<Rightarrow> state" where
  "resume e st w ok i 0 = st"
| "resume e st w ok i (Suc n) = resume e (step e st (Replay w (ok i))) w ok (Suc i) n"

text \<open>The line that the \<^verbatim>\<open>finally\<close> clause prints.\<close>

fun is_teardown :: "event \<Rightarrow> bool" where
  "is_teardown (LogDisconnected d a) = True"
| "is_teardown _ = False"

text \<open>
  The events that hand device data to a sink: the file written for a screen capture and the
  lines printed for a capture, a notification, a flashlight change and a command response.
\<close>

fun is_sink :: "event \<Rightarrow> bool" where
  "is_sink (FileWrite f b) = True"
| "is_sink (LogScreenSaved f n) = True"
| "is_sink (LogNotification d a b c t) = True"
| "is_sink (LogFlashlight d s t) = True"
| "is_sink (LogCommandResponse d c s) = True"
| "is_sink _ = False"

text \<open>
  The states in which every registered identifier is hashable, and commands are queued
  under it only while the connection that carries it is suspended in its replay loop.
\<close>

definition backlog_only_while_replaying :: "state \<Rightarrow> bool" where
  "backlog_only_while_replaying st =
     (\<forall>(w, i) \<in> set (connected_clients st).
        \<exists>k. key_of (device_id i) = Some k \<and>
            (device_commands st k = None \<or> draining st w \<noteq> None))"

text \<open>The states in which a suspended handler's identifier is the one in its registry entry.\<close>

definition draining_as_registered :: "state \<Rightarrow> bool" where
  "draining_as_registered st =
     (\<forall>(w, i) \<in> set (connected_clients st).
        \<forall>dr. draining st w = Some dr \<longrightarrow> device_id i = d_device dr)"

section \<open>A concrete environment\<close>

text \<open>
  An environment on which the model can be run: a serialiser in the layout of
  \<^verbatim>\<open>json.dumps\<close> (without escapes), and a parser that knows the handful of texts used as
  inputs below and rejects every other text.
\<close>

fun join :: "string \<Rightarrow> string list \<Rightarrow> string" where
  "join sep [] = []"
| "join sep [x] = x"
| "join sep (x # y # ys) = x @ sep @ join sep (y # ys)"

fun dumps0 :: "json \<Rightarrow> string" where
  "dumps0 JNull = ''null''"
| "dumps0 (JBool b) = (if b then ''true'' else ''false'')"
| "dumps0 (JInt i) = (if i < 0 then ''-'' @ str_nat (nat (- i)) else str_nat (nat i))"
| "dumps0 (JStr s) = CHR 0x22 # s @ [CHR 0x22]"
| "dumps0 (JArr xs) = ''['' @ join '', '' (map dumps0 xs) @ '']''"
| "dumps0 (JObj kvs) =
     ''{'' @ join '', ''
        (map (\<lambda>(k, v). CHR 0x22 # k @ [CHR 0x22] @ '': '' @ dumps0 v) kvs) @ ''}''"

definition loads0 :: "string \<Rightarrow> json option" where
  \<open>loads0 = map_of
     [(''{"device_id": "X"}'', JObj [(''device_id'', JStr ''X'')]),
      (''{}'', JObj []),
      (''{"device_id": "X", "command": "lock"}'',
         JObj [(''device_id'', JStr ''X''), (''command'', JStr ''lock'')]),
      (''{"device_id": "X", "command": "photo", "params": {"cam": 1}}'',
         JObj [(''device_id'', JStr ''X''), (''command'', JStr ''photo''),
               (''params'', JObj [(''cam'', JInt 1)])]),
      (''{"type": "unknown_xyz"}'', JObj [(''type'', JStr ''unknown_xyz'')]),
      (''{"type": "flashlight", "status": true}'',
         JObj [(''type'', JStr ''flashlight''), (''status'', JBool True)]),
      (''[1]'', JArr [JInt 1])]\<close>

definition env0 :: env where
  "env0 =
     \<lparr>loads = loads0,
      dumps = dumps0,
      b64decode = (\<lambda>j. case j of JStr s \<Rightarrow> Some s | _ \<Rightarrow> None),
      str_of = (\<lambda>j. case j of JStr s \<Rightarrow> s | _ \<Rightarrow> dumps0 j),
      str_exn = (\<lambda>x. ''error''),
      writable = (\<lambda>p. True)\<rparr>"

text \<open>Inputs and states used to run the model.\<close>

abbreviation reg_X :: string where
  \<open>reg_X \<equiv> ''{"device_id": "X"}''\<close>

abbreviation lock_X :: string where
  \<open>lock_X \<equiv> ''{"device_id": "X", "command": "lock"}''\<close>

abbreviation photo_X :: string where
  \<open>photo_X \<equiv> ''{"device_id": "X", "command": "photo", "params": {"cam": 1}}''\<close>

abbreviation one_device :: state where
  "one_device \<equiv> exec env0 [Connect 11 ''10.0.0.1'' (Recv (TEXT reg_X)) ''t0'' (\<lambda>i. True)]"




abbreviation mid_drain :: state where
  "mid_drain \<equiv>
     exec env0 [Dispatch lock_X ''t0'' True,
                Register 11 ''10.0.0.1'' (Recv (TEXT reg_X)) ''t1'']"

abbreviation two_devices :: state where
  "two_devices \<equiv>
     exec env0 [Connect 11 ''10.0.0.1'' (Recv (TEXT reg_X)) ''t0'' (\<lambda>i. True),
                Connect 12 ''10.0.0.2'' (Recv (TEXT reg_X)) ''t1'' (\<lambda>i. True)]"

section \<open>Basic facts about the dicts and the loops\<close>

lemma py_eq_key: "key_of a = Some k \<Longrightarrow> py_eq a b = (key_of b = Some k)"
  by (cases a; cases b) (auto split: if_splits)

lemma py_eq_JStr [simp]: "py_eq a (JStr s) = (a = JStr s)"
  by (cases a) auto

lemma map_of_dict_set: "map_of (dict_set cs k v) k' = (if k' = k then Some v else map_of cs k')"
  by (induction cs) auto

lemma dict_set_fresh: "k \<notin> set (map fst cs) \<Longrightarrow> dict_set cs k v = cs @ [(k, v)]"
  by (induction cs) auto

lemma keys_dict_set: "set (map fst (dict_set cs k v)) = insert k (set (map fst cs))"
proof (induction cs)
  case Nil
  show ?case by simp
next
  case (Cons a cs)
  obtain k' v' where a: "a = (k', v')" by (cases a)
  show ?case using Cons.IH unfolding a by (cases "k' = k") auto
qed

lemma map_of_dict_del: "map_of (dict_del cs k) k' = (if k' = k then None else map_of cs k')"
  unfolding dict_del_def by (induction cs) auto

lemma dict_del_absent: "k \<notin> set (map fst cs) \<Longrightarrow> dict_del cs k = cs"
  unfolding dict_del_def by (induction cs) auto

lemma dict_del_set_fresh: "k \<notin> set (map fst cs) \<Longrightarrow> dict_del (dict_set cs k v) k = cs"
  unfolding dict_del_def by (induction cs) auto

lemma find_target_None: "(find_target cs d = None) = (\<forall>(w, i) \<in> set cs. \<not> py_eq (device_id i) d)"
  by (induction cs d rule: find_target.induct) auto

lemma find_target_Some:
  "find_target cs d = Some w \<Longrightarrow> \<exists>i. (w, i) \<in> set cs \<and> py_eq (device_id i) d"
  by (induction cs d rule: find_target.induct) (auto split: if_splits)

lemma find_target_append:
  "find_target (cs @ cs') d = (case find_target cs d of None \<Rightarrow> find_target cs' d | Some w \<Rightarrow> Some w)"
  by (induction cs d rule: find_target.induct) auto


lemma replay_all_ok:
  "\<forall>j<length cs. ok (i + j) \<Longrightarrow> replay e w ok i cs = (map (\<lambda>c. Sent w (dumps e (replay_msg c))) cs, None)"
proof (induction cs arbitrary: i)
  case Nil
  show ?case by simp
next
  case (Cons c cs)
  have "ok i" using Cons.prems by force
  moreover have "\<forall>j<length cs. ok (Suc i + j)" using Cons.prems by force
  ultimately show ?case using Cons.IH [of "Suc i"] by simp
qed



lemma handshake_object:
  assumes "loads e s = Some (JObj kvs)"
  shows "fst (snd (handshake e st w addr (Recv (TEXT s)) now ok)) =
           get_item kvs ''device_id'' (JStr (''device_'' @ str_nat (length (connected_clients st))))"
    and "connected_clients (snd (snd (handshake e st w addr (Recv (TEXT s)) now ok))) =
           dict_set (connected_clients st) w
             \<lparr>device_id = get_item kvs ''device_id''
                  (JStr (''device_'' @ str_nat (length (connected_clients st)))),
              connected_at = now, address = addr\<rparr>"
  using assms
  by (auto simp: handshake_def dict_get_def Let_def emit_def split: option.splits prod.splits)


section \<open>Registration\<close>

text \<open>
  C8. A registration message that is a dict without the key \<^verbatim>\<open>device_id\<close> gives the
  connection the identifier \<^verbatim>\<open>device_<n>\<close>, where \<open>n\<close> is the number of entries of
  \<^verbatim>\<open>connected_clients\<close> before the new entry is stored; the entry stored for the
  connection carries that identifier.
\<close>

theorem fallback_identifier:
  assumes "loads e s = Some (JObj kvs)" and "map_of kvs ''device_id'' = None"
  shows "fst (snd (handshake e st w addr (Recv (TEXT s)) now ok)) =
           JStr (''device_'' @ str_nat (length (connected_clients st))) \<and>
         map_of (connected_clients (snd (snd (handshake e st w addr (Recv (TEXT s)) now ok)))) w =
           Some \<lparr>device_id = JStr (''device_'' @ str_nat (length (connected_clients st))),
                 connected_at = now, address = addr\<rparr>"
proof -
  have "get_item kvs ''device_id'' (JStr (''device_'' @ str_nat (length (connected_clients st)))) =
          JStr (''device_'' @ str_nat (length (connected_clients st)))"
    using assms(2) by (simp add: get_item_def)
  then show ?thesis
    using handshake_object [OF assms(1), of st w addr now ok] by (simp add: map_of_dict_set)
qed

lemma one_device_eq:
  "one_device = \<lparr>connected_clients = [(11, \<lparr>device_id = JStr ''X'', connected_at = ''t0'', address = ''10.0.0.1''\<rparr>)],
     device_commands = Map.empty, trace = [LogConnected (JStr ''X'') ''10.0.0.1''],
     draining = Map.empty\<rparr>"
  by (simp add: exec_def init_state_def fresh_def connect_def handshake_def env0_def loads0_def
        dict_get_def get_item_def emit_def)

text \<open>With one device connected, the next connection without an identifier is \<^verbatim>\<open>device_1\<close>.\<close>

theorem fallback_identifier_witness:
  "fst (snd (handshake env0 one_device 12 ''10.0.0.2'' (Recv (TEXT ''{}'')) ''t1'' (\<lambda>i. True))) =
     JStr ''device_1'' \<and>
   map_of (connected_clients
     (snd (snd (handshake env0 one_device 12 ''10.0.0.2'' (Recv (TEXT ''{}'')) ''t1'' (\<lambda>i. True))))) 12 =
     Some \<lparr>device_id = JStr ''device_1'', connected_at = ''t1'', address = ''10.0.0.2''\<rparr>"
proof -
  have a: "loads env0 ''{}'' = Some (JObj [])" by (simp add: env0_def loads0_def)
  have b: "map_of ([] :: (string \<times> json) list) ''device_id'' = None" by simp
  have c: "str_nat (length (connected_clients one_device)) = ''1''"
    unfolding one_device_eq by (simp add: str_nat.simps)
  show ?thesis
    using fallback_identifier [OF a b, of one_device 12 "''10.0.0.2''" "''t1''" "\<lambda>i. True"]
    unfolding c by simp
qed

section \<open>Failed handshakes\<close>

lemma handshake_not_object:
  assumes "first = Timeout \<or> (\<exists>m. first = Recv m \<and> (\<forall>s. m \<noteq> TEXT s)) \<or>
           (\<exists>s. first = Recv (TEXT s) \<and> (\<forall>kvs. loads e s \<noteq> Some (JObj kvs)))"
  shows "fst (handshake e st w addr first now ok) \<noteq> Next"
    and "fst (snd (handshake e st w addr first now ok)) = JStr ''unknown''"
    and "connected_clients (snd (snd (handshake e st w addr first now ok))) = connected_clients st"
    and "device_commands (snd (snd (handshake e st w addr first now ok))) = device_commands st"
  using assms
  by (auto simp: handshake_def dict_get_def emit_def split: recv.splits ws_msg.splits option.splits json.splits)

lemma ws_finally_clients:
  "connected_clients (ws_finally st w dev addr) = dict_del (connected_clients st) w"
  by (simp add: ws_finally_def emit_def dict_del_absent)

lemma ws_except_clients [simp]: "connected_clients (ws_except st fl addr) = connected_clients st"
  by (simp add: ws_except_def emit_def split: flow.splits)

lemma emit_clients [simp]: "connected_clients (emit st es) = connected_clients st"
  by (simp add: emit_def)

lemma emit_commands [simp]: "device_commands (emit st es) = device_commands st"
  by (simp add: emit_def)

lemma emit_trace [simp]: "trace (emit st es) = trace st @ es"
  by (simp add: emit_def)

lemma ws_finally_trace: "trace (ws_finally st w dev addr) = trace st @ [LogDisconnected dev addr]"
  by (simp add: ws_finally_def)

text \<open>
  C5. A new connection whose first receive ends with the expiry of the timeout, or gives a
  message that is not a text message, or gives a text that does not parse to a dict: the
  handler leaves the \<^verbatim>\<open>try\<close> block without reaching the message loop, the registry is the
  same after the handshake and after the handler has returned, the connection is not among
  its keys, and the handler ends with its disconnect line; for a message that is not a text
  message \<^verbatim>\<open>ws.close\<close> has been called. The expiry of the ten seconds is an input of the
  model.
\<close>

theorem handshake_failure_never_registers:
  assumes "first = Timeout \<or> (\<exists>m. first = Recv m \<and> (\<forall>s. m \<noteq> TEXT s)) \<or>
           (\<exists>s. first = Recv (TEXT s) \<and> (\<forall>kvs. loads e s \<noteq> Some (JObj kvs)))"
    and "w \<notin> set (map fst (connected_clients st))"
  shows "fst (handshake e st w addr first now ok) \<noteq> Next \<and>
         connected_clients (snd (snd (handshake e st w addr first now ok))) = connected_clients st \<and>
         connected_clients (websocket_handler e st w addr first now ok frames) = connected_clients st \<and>
         w \<notin> set (map fst (connected_clients (websocket_handler e st w addr first now ok frames))) \<and>
         last (trace (websocket_handler e st w addr first now ok frames)) =
           LogDisconnected (JStr ''unknown'') addr \<and>
         ((\<exists>m. first = Recv m \<and> (\<forall>s. m \<noteq> TEXT s)) \<longrightarrow>
            Closed w \<in> set (trace (websocket_handler e st w addr first now ok frames)))"
proof -
  obtain fl dev st1 where h: "handshake e st w addr first now ok = (fl, dev, st1)"
    by (cases "handshake e st w addr first now ok") auto
  have fl: "fl \<noteq> Next" and dev: "dev = JStr ''unknown''"
    and cc: "connected_clients st1 = connected_clients st"
    using handshake_not_object [OF assms(1), of st w addr now ok] h by simp_all
  have wh: "websocket_handler e st w addr first now ok frames =
              ws_finally (ws_except st1 fl addr) w dev addr"
    using fl by (cases fl) (simp_all add: websocket_handler_def h)
  have fin: "connected_clients (websocket_handler e st w addr first now ok frames) = connected_clients st"
    unfolding wh using assms(2) by (simp add: ws_finally_clients cc dict_del_absent)
  have closed: "Closed w \<in> set (trace (websocket_handler e st w addr first now ok frames))"
    if "\<exists>m. first = Recv m \<and> (\<forall>s. m \<noteq> TEXT s)"
  proof -
    from that obtain m where m: "first = Recv m" "\<forall>s. m \<noteq> TEXT s" by blast
    have "handshake e st w addr first now ok = (Return, JStr ''unknown'', emit st [Closed w])"
      using m by (cases m) (simp_all add: handshake_def)
    then have "fl = Return" "st1 = emit st [Closed w]" using h by simp_all
    then show ?thesis unfolding wh by (simp add: ws_finally_trace ws_except_def)
  qed
  show ?thesis
    using fl cc fin assms(2) closed h unfolding wh
    by (simp add: ws_finally_trace dev)
qed

text \<open>A timeout, a binary first message and an unparsable text, with one device connected.\<close>

theorem handshake_failure_never_registers_witness:
  "connected_clients (websocket_handler env0 one_device 12 ''10.0.0.2'' Timeout ''t1'' (\<lambda>i. True) []) =
     connected_clients one_device \<and>
   connected_clients (websocket_handler env0 one_device 12 ''10.0.0.2'' (Recv BINARY) ''t1'' (\<lambda>i. True) []) =
     connected_clients one_device \<and>
   Closed 12 \<in> set (trace (websocket_handler env0 one_device 12 ''10.0.0.2'' (Recv BINARY) ''t1'' (\<lambda>i. True) [])) \<and>
   connected_clients (websocket_handler env0 one_device 12 ''10.0.0.2'' (Recv (TEXT ''not json'')) ''t1'' (\<lambda>i. True) []) =
     connected_clients one_device"
proof -
  have fresh: "12 \<notin> set (map fst (connected_clients one_device))"
    unfolding one_device_eq by simp
  have a: "Timeout = Timeout \<or> (\<exists>m. Timeout = Recv m \<and> (\<forall>s. m \<noteq> TEXT s)) \<or>
           (\<exists>s. Timeout = Recv (TEXT s) \<and> (\<forall>kvs. loads env0 s \<noteq> Some (JObj kvs)))"
    by simp
  have b: "Recv BINARY = Timeout \<or> (\<exists>m. Recv BINARY = Recv m \<and> (\<forall>s. m \<noteq> TEXT s)) \<or>
           (\<exists>s. Recv BINARY = Recv (TEXT s) \<and> (\<forall>kvs. loads env0 s \<noteq> Some (JObj kvs)))"
    by simp
  have "loads env0 ''not json'' = None" by (simp add: env0_def loads0_def)
  then have c: "Recv (TEXT ''not json'') = Timeout \<or>
           (\<exists>m. Recv (TEXT ''not json'') = Recv m \<and> (\<forall>s. m \<noteq> TEXT s)) \<or>
           (\<exists>s. Recv (TEXT ''not json'') = Recv (TEXT s) \<and> (\<forall>kvs. loads env0 s \<noteq> Some (JObj kvs)))"
    by simp
  show ?thesis
    using handshake_failure_never_registers [OF a fresh, of "''10.0.0.2''" "''t1''" "\<lambda>i. True" "[]"]
      handshake_failure_never_registers [OF b fresh, of "''10.0.0.2''" "''t1''" "\<lambda>i. True" "[]"]
      handshake_failure_never_registers [OF c fresh, of "''10.0.0.2''" "''t1''" "\<lambda>i. True" "[]"]
    by simp
qed

section \<open>The command endpoint on a well-formed request\<close>

lemma send_command_try_object:
  assumes "loads e raw = Some (JObj kvs)"
  shows "send_command_try e st raw now send_ok =
           dispatch e st (get_item kvs ''device_id'' (JStr ''default''))
             (get_item kvs ''command'' JNull) (get_item kvs ''params'' (JObj [])) now send_ok"
  using assms by (simp add: send_command_try_def dict_get_def)

lemma send_command_hit_fail:
  assumes "loads e raw = Some (JObj kvs)"
    and "find_target (connected_clients st) (get_item kvs ''device_id'' (JStr ''default'')) = Some w"
  shows "send_command e st raw now False =
           (\<lparr>status = 500, body = JObj [(''error'', JStr (str_exn e SendError))]\<rparr>,
            emit st [LogCommandError SendError])"
  using assms by (simp add: send_command_def send_command_try_object dispatch_def)

lemma send_command_hit_ok:
  assumes "loads e raw = Some (JObj kvs)"
    and "find_target (connected_clients st) (get_item kvs ''device_id'' (JStr ''default'')) = Some w"
  shows "send_command e st raw now True =
           (json_response [(''status'', JStr ''sent''), (''command'', get_item kvs ''command'' JNull)],
            emit st [Sent w (dumps e (command_msg (get_item kvs ''command'' JNull)
                                                   (get_item kvs ''params'' (JObj [])) now)),
                     LogCommandSent (get_item kvs ''device_id'' (JStr ''default''))
                       (get_item kvs ''command'' JNull)])"
  using assms by (simp add: send_command_def send_command_try_object dispatch_def)

lemma send_command_miss:
  assumes "loads e raw = Some (JObj kvs)"
    and "find_target (connected_clients st) (get_item kvs ''device_id'' (JStr ''default'')) = None"
    and "key_of (get_item kvs ''device_id'' (JStr ''default'')) = Some k"
  shows "send_command e st raw now send_ok =
           (json_response [(''status'', JStr ''queued''),
                           (''message'', JStr ''Device not connected, command queued'')],
            st\<lparr>device_commands := (device_commands st)
                 (k \<mapsto> backlog st k @ [\<lparr>command = get_item kvs ''command'' JNull,
                                          params = get_item kvs ''params'' (JObj []),
                                          timestamp = now\<rparr>])\<rparr>)"
  using assms by (simp add: send_command_def send_command_try_object dispatch_def)

lemma lock_X_loads:
  \<open>loads env0 lock_X = Some (JObj [(''device_id'', JStr ''X''), (''command'', JStr ''lock'')])\<close>
  by (simp add: env0_def loads0_def)

lemma one_device_target: "find_target (connected_clients one_device) (JStr ''X'') = Some 11"
  unfolding one_device_eq by simp

section \<open>A send that fails\<close>

text \<open>
  C2, as stated, at a concrete input: device \<^verbatim>\<open>X\<close> is connected as connection 11 and the
  send of the command raises. The reply has status 500, connection 11 is still in the
  registry and nothing is queued for \<^verbatim>\<open>X\<close>: the session is not evicted and the command is
  not kept.
\<close>

theorem send_failure_counterexample:
  "find_target (connected_clients one_device) (JStr ''X'') = Some 11 \<and>
   status (fst (send_command env0 one_device lock_X ''t1'' False)) = 500 \<and>
   11 \<in> set (map fst (connected_clients (snd (send_command env0 one_device lock_X ''t1'' False)))) \<and>
   device_commands (snd (send_command env0 one_device lock_X ''t1'' False)) (KStr ''X'') = None"
proof -
  have t: "find_target (connected_clients one_device)
             (get_item [(''device_id'', JStr ''X''), (''command'', JStr ''lock'')] ''device_id'' (JStr ''default'')) = Some 11"
    using one_device_target by (simp add: get_item_def)
  show ?thesis
    unfolding send_command_hit_fail [OF lock_X_loads t]
    unfolding one_device_eq by (simp add: emit_def)
qed

text \<open>
  C2, amended. When the search finds a connection for the requested device and the send on
  it raises, \<^verbatim>\<open>send_command\<close> answers with status 500 and the text of the exception;
  the registry and the queue are as before, and the only trace is the error line.
\<close>

theorem send_failure_answers_error:
  assumes "loads e raw = Some (JObj kvs)"
    and "find_target (connected_clients st) (get_item kvs ''device_id'' (JStr ''default'')) = Some w"
  shows "fst (send_command e st raw now False) =
           \<lparr>status = 500, body = JObj [(''error'', JStr (str_exn e SendError))]\<rparr> \<and>
         connected_clients (snd (send_command e st raw now False)) = connected_clients st \<and>
         device_commands (snd (send_command e st raw now False)) = device_commands st \<and>
         trace (snd (send_command e st raw now False)) = trace st @ [LogCommandError SendError]"
  using send_command_hit_fail [OF assms, of now] by simp

text \<open>The amended statement at the input of the counterexample.\<close>

theorem send_failure_answers_error_witness:
  "fst (send_command env0 one_device lock_X ''t1'' False) =
     \<lparr>status = 500, body = JObj [(''error'', JStr ''error'')]\<rparr> \<and>
   connected_clients (snd (send_command env0 one_device lock_X ''t1'' False)) =
     [(11, \<lparr>device_id = JStr ''X'', connected_at = ''t0'', address = ''10.0.0.1''\<rparr>)] \<and>
   device_commands (snd (send_command env0 one_device lock_X ''t1'' False)) = Map.empty"
proof -
  have t: "find_target (connected_clients one_device)
             (get_item [(''device_id'', JStr ''X''), (''command'', JStr ''lock'')] ''device_id'' (JStr ''default'')) = Some 11"
    using one_device_target by (simp add: get_item_def)
  have "str_exn env0 SendError = ''error''" by (simp add: env0_def)
  then show ?thesis
    using send_failure_answers_error [OF lock_X_loads t, of "''t1''"]
    unfolding one_device_eq by simp
qed

section \<open>What a handshake does\<close>

lemma replay_events:
  "replay e w ok i cs = (es, x) \<Longrightarrow> ev \<in> set es \<Longrightarrow> \<exists>m. ev = Sent w m"
proof (induction cs arbitrary: i es x)
  case Nil
  then show ?case by simp
next
  case (Cons c cs)
  show ?case
  proof (cases "ok i")
    case False
    then show ?thesis using Cons.prems by simp
  next
    case True
    obtain es' x' where r: "replay e w ok (Suc i) cs = (es', x')"
      by (cases "replay e w ok (Suc i) cs")
    then have "es = Sent w (dumps e (replay_msg c)) # es'"
      using Cons.prems(1) True by simp
    then show ?thesis using Cons.IH [OF r] Cons.prems(2) by auto
  qed
qed

lemma handshake_reg:
  assumes "loads e s = Some (JObj kvs)"
    and "get_item kvs ''device_id''
           (JStr (''device_'' @ str_nat (length (connected_clients st)))) = d"
    and "st1 = st\<lparr>connected_clients :=
                   dict_set (connected_clients st) w
                     \<lparr>device_id = d, connected_at = now, address = addr\<rparr>,
                 trace := trace st @ [LogConnected d addr]\<rparr>"
  shows "handshake e st w addr (Recv (TEXT s)) now ok =
           (case key_of d of
              None \<Rightarrow> (Raise TypeError, d, st1)
            | Some k \<Rightarrow>
                (case device_commands st k of
                   None \<Rightarrow> (Next, d, st1)
                 | Some cs \<Rightarrow>
                     (case replay e w ok 0 cs of
                        (es, Some x) \<Rightarrow> (Raise x, d, st1\<lparr>trace := trace st1 @ es\<rparr>)
                      | (es, None) \<Rightarrow>
                          (Next, d,
                           st1\<lparr>device_commands := (device_commands st)(k := None),
                               trace := trace st1 @ es @ [LogQueuedSent (length cs) d]\<rparr>))))"
  using assms
  by (simp add: handshake_def dict_get_def Let_def emit_def split: option.splits prod.splits)

lemma handshake_trace:
  "\<exists>es. trace (snd (snd (handshake e st w addr first now ok))) = trace st @ es \<and>
        (\<forall>ev \<in> set es. (\<exists>d a. ev = LogConnected d a) \<or> (\<exists>m. ev = Sent w m) \<or>
                          (\<exists>n d. ev = LogQueuedSent n d) \<or>
                          (ev = Closed w \<and> (\<exists>m. first = Recv m \<and> (\<forall>s. m \<noteq> TEXT s))))"
proof (cases first)
  case Timeout
  then show ?thesis by (simp add: handshake_def)
next
  case (Recv m)
  show ?thesis
  proof (cases "\<exists>s. m = TEXT s")
    case False
    then have "handshake e st w addr first now ok = (Return, JStr ''unknown'', emit st [Closed w])"
      using Recv by (cases m) (simp_all add: handshake_def)
    then show ?thesis using Recv False by simp
  next
    case True
    then obtain s where s: "m = TEXT s" by blast
    show ?thesis
    proof (cases "\<exists>kvs. loads e s = Some (JObj kvs)")
      case False
      then have "trace (snd (snd (handshake e st w addr first now ok))) = trace st"
        unfolding Recv s
        by (auto simp: handshake_def dict_get_def split: option.splits json.splits)
      then show ?thesis by simp
    next
      case True
      then obtain kvs where kvs: "loads e s = Some (JObj kvs)" by blast
      obtain d where d: "get_item kvs ''device_id''
                            (JStr (''device_'' @ str_nat (length (connected_clients st)))) = d"
        by simp
      note hs = handshake_reg [OF kvs d refl]
      show ?thesis
      proof (cases "key_of d")
        case None
        then have "trace (snd (snd (handshake e st w addr first now ok))) =
                     trace st @ [LogConnected d addr]"
          unfolding Recv s by (simp add: hs)
        then show ?thesis by simp
      next
        case (Some k)
        show ?thesis
        proof (cases "device_commands st k")
          case None
          then have "trace (snd (snd (handshake e st w addr first now ok))) =
                       trace st @ [LogConnected d addr]"
            unfolding Recv s using Some by (simp add: hs)
          then show ?thesis by simp
        next
          case cs: (Some cs)
          obtain es x where r: "replay e w ok 0 cs = (es, x)" by (cases "replay e w ok 0 cs")
          have es: "\<forall>ev \<in> set es. \<exists>m. ev = Sent w m"
            using replay_events [OF r] by blast
          have "trace (snd (snd (handshake e st w addr first now ok))) =
                  trace st @ (LogConnected d addr # es @
                    (case x of None \<Rightarrow> [LogQueuedSent (length cs) d] | Some _ \<Rightarrow> []))"
            unfolding Recv s using Some cs r by (simp add: hs split: option.splits)
          moreover have "\<forall>ev \<in> set (LogConnected d addr # es @
                    (case x of None \<Rightarrow> [LogQueuedSent (length cs) d] | Some _ \<Rightarrow> [])).
                  (\<exists>d a. ev = LogConnected d a) \<or> (\<exists>m. ev = Sent w m) \<or>
                  (\<exists>n d. ev = LogQueuedSent n d) \<or>
                  (ev = Closed w \<and> (\<exists>m. first = Recv m \<and> (\<forall>s. m \<noteq> TEXT s)))"
            using es by (auto split: option.splits)
          ultimately show ?thesis by blast
        qed
      qed
    qed
  qed
qed

lemma find_target_snoc:
  "find_target cs d = Some w \<Longrightarrow> find_target (cs @ [x]) d = Some w"
  by (simp add: find_target_append)

lemma two_devices_eq:
  "two_devices =
     \<lparr>connected_clients =
        [(11, \<lparr>device_id = JStr ''X'', connected_at = ''t0'', address = ''10.0.0.1''\<rparr>),
         (12, \<lparr>device_id = JStr ''X'', connected_at = ''t1'', address = ''10.0.0.2''\<rparr>)],
      device_commands = Map.empty,
      trace = [LogConnected (JStr ''X'') ''10.0.0.1'', LogConnected (JStr ''X'') ''10.0.0.2''],
      draining = Map.empty\<rparr>"
  by (simp add: exec_def init_state_def fresh_def connect_def handshake_def env0_def loads0_def
        dict_get_def get_item_def emit_def)

lemma reg_X_loads: \<open>loads env0 reg_X = Some (JObj [(''device_id'', JStr ''X'')])\<close>
  by (simp add: env0_def loads0_def)

section \<open>Two connections with one identifier\<close>

text \<open>
  C1, as stated, at a concrete input: two connections, 11 and then 12, register the
  identifier \<^verbatim>\<open>X\<close>. The registry then holds two entries for \<^verbatim>\<open>X\<close>, and \<^verbatim>\<open>ws.close\<close>
  has not been called on connection 11.
\<close>

theorem registry_exclusivity_counterexample:
  "connected_clients two_devices =
     [(11, \<lparr>device_id = JStr ''X'', connected_at = ''t0'', address = ''10.0.0.1''\<rparr>),
      (12, \<lparr>device_id = JStr ''X'', connected_at = ''t1'', address = ''10.0.0.2''\<rparr>)] \<and>
   Closed 11 \<notin> set (trace two_devices)"
  unfolding two_devices_eq by simp

text \<open>
  C1, amended. The registry is keyed by connection, not by identifier. When a new
  connection registers an identifier that an entry of the registry already carries, its
  entry is added behind the existing entries, which stay as they are; the handshake closes
  no connection; and every search of \<^verbatim>\<open>send_command\<close> that found a connection before
  finds the same connection afterwards, so commands for the identifier keep going to the
  earlier connection.
\<close>

theorem second_registration_keeps_first:
  assumes "(w1, i1) \<in> set (connected_clients st)"
    and "w2 \<notin> set (map fst (connected_clients st))"
    and "loads e s = Some (JObj kvs)"
    and "get_item kvs ''device_id''
           (JStr (''device_'' @ str_nat (length (connected_clients st)))) = device_id i1"
  shows "connected_clients (snd (snd (handshake e st w2 addr (Recv (TEXT s)) now ok))) =
           connected_clients st @
             [(w2, \<lparr>device_id = device_id i1, connected_at = now, address = addr\<rparr>)] \<and>
         (\<forall>v. Closed v \<in> set (trace (snd (snd (handshake e st w2 addr (Recv (TEXT s)) now ok))))
                \<longrightarrow> Closed v \<in> set (trace st)) \<and>
         (\<forall>d w. find_target (connected_clients st) d = Some w \<longrightarrow>
                 find_target (connected_clients
                   (snd (snd (handshake e st w2 addr (Recv (TEXT s)) now ok)))) d = Some w)"
proof -
  let ?st' = "snd (snd (handshake e st w2 addr (Recv (TEXT s)) now ok))"
  have cc: "connected_clients ?st' = connected_clients st @
              [(w2, \<lparr>device_id = device_id i1, connected_at = now, address = addr\<rparr>)]"
    using handshake_object(2) [OF assms(3), of st w2 addr now ok] assms(2,4)
    by (simp add: dict_set_fresh)
  obtain es where es: "trace ?st' = trace st @ es"
    "\<forall>ev \<in> set es. (\<exists>d a. ev = LogConnected d a) \<or> (\<exists>m. ev = Sent w2 m) \<or>
        (\<exists>n d. ev = LogQueuedSent n d) \<or>
        (ev = Closed w2 \<and> (\<exists>m. Recv (TEXT s) = Recv m \<and> (\<forall>s. m \<noteq> TEXT s)))"
    using handshake_trace [of e st w2 addr "Recv (TEXT s)" now ok] by blast
  have "\<forall>v. Closed v \<notin> set es" using es(2) by auto
  then have cl: "\<forall>v. Closed v \<in> set (trace ?st') \<longrightarrow> Closed v \<in> set (trace st)"
    unfolding es(1) by auto
  show ?thesis using cc cl by (simp add: find_target_snoc)
qed

text \<open>The amended statement for connection 12 registering \<^verbatim>\<open>X\<close> beside connection 11.\<close>

theorem second_registration_keeps_first_witness:
  "connected_clients (snd (snd (handshake env0 one_device 12 ''10.0.0.2'' (Recv (TEXT reg_X)) ''t1''
      (\<lambda>i. True)))) =
     [(11, \<lparr>device_id = JStr ''X'', connected_at = ''t0'', address = ''10.0.0.1''\<rparr>),
      (12, \<lparr>device_id = JStr ''X'', connected_at = ''t1'', address = ''10.0.0.2''\<rparr>)] \<and>
   Closed 11 \<notin> set (trace (snd (snd (handshake env0 one_device 12 ''10.0.0.2'' (Recv (TEXT reg_X)) ''t1''
      (\<lambda>i. True))))) \<and>
   find_target (connected_clients (snd (snd (handshake env0 one_device 12 ''10.0.0.2''
      (Recv (TEXT reg_X)) ''t1'' (\<lambda>i. True))))) (JStr ''X'') = Some 11"
proof -
  let ?i1 = "\<lparr>device_id = JStr ''X'', connected_at = ''t0'', address = ''10.0.0.1''\<rparr>"
  have a: "(11, ?i1) \<in> set (connected_clients one_device)" unfolding one_device_eq by simp
  have b: "12 \<notin> set (map fst (connected_clients one_device))" unfolding one_device_eq by simp
  have c: "get_item [(''device_id'', JStr ''X'')] ''device_id''
             (JStr (''device_'' @ str_nat (length (connected_clients one_device)))) = device_id ?i1"
    by (simp add: get_item_def)
  have d: "Closed 11 \<notin> set (trace one_device)" unfolding one_device_eq by simp
  have t: "find_target (connected_clients one_device) (JStr ''X'') = Some 11"
    unfolding one_device_eq by simp
  have cc: "connected_clients one_device = [(11, ?i1)]" unfolding one_device_eq by simp
  show ?thesis
    using second_registration_keeps_first [OF a b reg_X_loads c, of "''10.0.0.2''" "''t1''" "\<lambda>i. True"]
      d t cc by auto
qed


section \<open>Teardown\<close>

lemma dict_del_dict_set: "dict_del (dict_set cs k v) k = dict_del cs k"
  unfolding dict_del_def by (induction cs) auto

lemma set_dict_del: "set (dict_del cs k) = {(k', v) \<in> set cs. k' \<noteq> k}"
  unfolding dict_del_def by auto

lemma keys_dict_del: "k \<notin> set (map fst (dict_del cs k))"
  unfolding dict_del_def by auto

lemma handshake_clients:
  "connected_clients (snd (snd (handshake e st w addr first now ok))) = connected_clients st \<or>
   (\<exists>i. connected_clients (snd (snd (handshake e st w addr first now ok))) =
          dict_set (connected_clients st) w i)"
proof (cases "\<exists>s kvs. first = Recv (TEXT s) \<and> loads e s = Some (JObj kvs)")
  case True
  then obtain s kvs where "first = Recv (TEXT s)" "loads e s = Some (JObj kvs)" by blast
  then show ?thesis using handshake_object(2) [of e s kvs st w addr now ok] by blast
next
  case False
  have "first = Timeout \<or> (\<exists>m. first = Recv m \<and> (\<forall>s. m \<noteq> TEXT s)) \<or>
        (\<exists>s. first = Recv (TEXT s) \<and> (\<forall>kvs. loads e s \<noteq> Some (JObj kvs)))"
  proof (cases first)
    case Timeout
    then show ?thesis by simp
  next
    case (Recv m)
    then show ?thesis using False by (cases m) auto
  qed
  then show ?thesis using handshake_not_object(3) by blast
qed

lemma handle_text_no_teardown: "filter is_teardown (handle_text e dev s now) = []"
  by (simp add: handle_text_def Let_def split: option.splits json.splits)

lemma route_no_teardown: "filter is_teardown (route e dev frames) = []"
  by (induction e dev frames rule: route.induct)
     (simp_all add: handle_text_no_teardown split: ws_msg.splits)

lemma handshake_no_teardown:
  "filter is_teardown (trace (snd (snd (handshake e st w addr first now ok)))) =
     filter is_teardown (trace st)"
proof -
  obtain es where es: "trace (snd (snd (handshake e st w addr first now ok))) = trace st @ es"
    "\<forall>ev \<in> set es. (\<exists>d a. ev = LogConnected d a) \<or> (\<exists>m. ev = Sent w m) \<or>
        (\<exists>n d. ev = LogQueuedSent n d) \<or>
        (ev = Closed w \<and> (\<exists>m. first = Recv m \<and> (\<forall>s. m \<noteq> TEXT s)))"
    using handshake_trace [of e st w addr first now ok] by blast
  have "\<forall>ev \<in> set es. \<not> is_teardown ev" using es(2) by auto
  then have "filter is_teardown es = []" by (simp add: filter_empty_conv)
  then show ?thesis unfolding es(1) by simp
qed

lemma ws_except_no_teardown:
  "filter is_teardown (trace (ws_except st fl addr)) = filter is_teardown (trace st)"
  by (simp add: ws_except_def split: flow.splits)

text \<open>
  C7. The \<^verbatim>\<open>finally\<close> clause runs once on every path through the handler: whatever the
  inputs, the handler adds exactly one disconnect line to the trace, and the registry it
  leaves is the registry it found without the entry of its own connection. The clause
  deletes by connection: run on any registry, it removes the entry of its connection and
  keeps every entry of another connection, whatever identifier that entry carries.
\<close>

theorem teardown_once_own_entry:
  "connected_clients (websocket_handler e st w addr first now ok frames) =
     dict_del (connected_clients st) w \<and>
   filter is_teardown (trace (websocket_handler e st w addr first now ok frames)) =
     filter is_teardown (trace st) @
       [LogDisconnected (fst (snd (handshake e st w addr first now ok))) addr] \<and>
   (\<forall>w' i. w' \<noteq> w \<longrightarrow>
      ((w', i) \<in> set (connected_clients (websocket_handler e st w addr first now ok frames)) \<longleftrightarrow>
       (w', i) \<in> set (connected_clients st))) \<and>
   (\<forall>w' i. w' \<noteq> w \<longrightarrow>
      ((w', i) \<in> set (connected_clients (ws_finally st w dev addr)) \<longleftrightarrow>
       (w', i) \<in> set (connected_clients st))) \<and>
   w \<notin> set (map fst (connected_clients (ws_finally st w dev addr)))"
proof -
  obtain fl d st1 where h: "handshake e st w addr first now ok = (fl, d, st1)"
    by (cases "handshake e st w addr first now ok") auto
  define st2 where "st2 = (case fl of Next \<Rightarrow> emit st1 (route e d frames) | _ \<Rightarrow> st1)"
  have wh: "websocket_handler e st w addr first now ok frames =
              ws_finally (ws_except st2 fl addr) w d addr"
    by (simp add: websocket_handler_def h st2_def)
  have cc2: "connected_clients st2 = connected_clients st1"
    by (simp add: st2_def split: flow.splits)
  have "dict_del (connected_clients st1) w = dict_del (connected_clients st) w"
    using handshake_clients [of e st w addr first now ok] h
    by (auto simp: dict_del_dict_set)
  then have cc: "connected_clients (websocket_handler e st w addr first now ok frames) =
                   dict_del (connected_clients st) w"
    unfolding wh by (simp add: ws_finally_clients cc2)
  have "filter is_teardown (trace st1) = filter is_teardown (trace st)"
    using handshake_no_teardown [of e st w addr first now ok] h by simp
  then have "filter is_teardown (trace st2) = filter is_teardown (trace st)"
    by (simp add: st2_def route_no_teardown split: flow.splits)
  then have tr: "filter is_teardown (trace (websocket_handler e st w addr first now ok frames)) =
                   filter is_teardown (trace st) @ [LogDisconnected d addr]"
    unfolding wh by (simp add: ws_finally_trace ws_except_no_teardown)
  have own: "w \<notin> set (map fst (connected_clients (ws_finally st w dev addr)))"
    unfolding ws_finally_clients by (rule keys_dict_del)
  have others: "\<forall>w' i. w' \<noteq> w \<longrightarrow>
      ((w', i) \<in> set (dict_del (connected_clients st) w) \<longleftrightarrow>
       (w', i) \<in> set (connected_clients st))"
    by (simp add: set_dict_del)
  show ?thesis
    unfolding cc tr ws_finally_clients [of st w dev addr]
    using others own h unfolding ws_finally_clients by simp
qed

text \<open>
  Connections 11 and 12 both carry the identifier \<^verbatim>\<open>X\<close>. The teardown of connection 11
  leaves the entry of connection 12; a whole handler run adds one disconnect line.
\<close>

theorem teardown_once_own_entry_witness:
  "(12, \<lparr>device_id = JStr ''X'', connected_at = ''t1'', address = ''10.0.0.2''\<rparr>)
     \<in> set (connected_clients (ws_finally two_devices 11 (JStr ''X'') ''10.0.0.1'')) \<and>
   11 \<notin> set (map fst (connected_clients (ws_finally two_devices 11 (JStr ''X'') ''10.0.0.1''))) \<and>
   filter is_teardown
     (trace (websocket_handler env0 two_devices 11 ''10.0.0.1'' Timeout ''t2'' (\<lambda>i. True) [])) =
     [LogDisconnected (JStr ''unknown'') ''10.0.0.1'']"
proof -
  have a: "(12, \<lparr>device_id = JStr ''X'', connected_at = ''t1'', address = ''10.0.0.2''\<rparr>)
             \<in> set (connected_clients two_devices)"
    unfolding two_devices_eq by simp
  have b: "filter is_teardown (trace two_devices) = []"
    unfolding two_devices_eq by simp
  have c: "fst (snd (handshake env0 two_devices 11 ''10.0.0.1'' Timeout ''t2'' (\<lambda>i. True))) =
             JStr ''unknown''"
    by (simp add: handshake_def)
  have d: "(12::nat) \<noteq> 11" by simp
  show ?thesis
    using teardown_once_own_entry [of env0 two_devices 11 "''10.0.0.1''" Timeout "''t2''"
        "\<lambda>i. True" "[]" "JStr ''X''"] a d
    unfolding b c by simp
qed

section \<open>Backlogs of registered devices\<close>

lemma set_dict_set: "set (dict_set cs k v) \<subseteq> insert (k, v) (set cs)"
proof (induction cs)
  case Nil
  show ?case by simp
next
  case (Cons a cs)
  obtain k' v' where a: "a = (k', v')" by (cases a)
  show ?case using Cons.IH unfolding a by (cases "k' = k") auto
qed

lemma emit_draining [simp]: "draining (emit st es) = draining st"
  by (simp add: emit_def)

lemma emit_Nil [simp]: "emit st [] = st"
  by (simp add: emit_def)

lemma ws_except_commands [simp]: "device_commands (ws_except st fl addr) = device_commands st"
  by (simp add: ws_except_def split: flow.splits)

lemma ws_except_draining [simp]: "draining (ws_except st fl addr) = draining st"
  by (simp add: ws_except_def split: flow.splits)

lemma ws_finally_commands [simp]: "device_commands (ws_finally st w dev addr) = device_commands st"
  by (simp add: ws_finally_def)

lemma ws_finally_draining [simp]: "draining (ws_finally st w dev addr) = draining st"
  by (simp add: ws_finally_def)

lemma replaying_frame:
  assumes "backlog_only_while_replaying st"
    and "\<forall>(v, i) \<in> set (connected_clients st').
           (v, i) \<in> set (connected_clients st) \<and> (draining st v \<noteq> None \<longrightarrow> draining st' v \<noteq> None)"
    and "\<forall>k. device_commands st k = None \<longrightarrow> device_commands st' k = None"
  shows "backlog_only_while_replaying st'"
  unfolding backlog_only_while_replaying_def
proof (intro ballI, clarify)
  fix v i assume m: "(v, i) \<in> set (connected_clients st')"
  then have m': "(v, i) \<in> set (connected_clients st)"
    and d: "draining st v \<noteq> None \<longrightarrow> draining st' v \<noteq> None"
    using assms(2) by auto
  obtain k where k: "key_of (device_id i) = Some k"
    "device_commands st k = None \<or> draining st v \<noteq> None"
    using assms(1) m' unfolding backlog_only_while_replaying_def by fastforce
  have "device_commands st' k = None \<or> draining st' v \<noteq> None"
    using k(2) d assms(3) by blast
  then show "\<exists>k. key_of (device_id i) = Some k \<and>
               (device_commands st' k = None \<or> draining st' v \<noteq> None)"
    using k(1) by blast
qed

lemma registered_frame:
  assumes "draining_as_registered st"
    and "set (connected_clients st') \<subseteq> set (connected_clients st)"
    and "\<forall>v dr. draining st' v = Some dr \<longrightarrow>
           (\<exists>dr0. draining st v = Some dr0 \<and> d_device dr0 = d_device dr)"
  shows "draining_as_registered st'"
  unfolding draining_as_registered_def
proof (intro ballI, clarify)
  fix v i dr assume m: "(v, i) \<in> set (connected_clients st')" and dr: "draining st' v = Some dr"
  obtain dr0 where dr0: "draining st v = Some dr0" "d_device dr0 = d_device dr"
    using assms(3) dr by blast
  have "(v, i) \<in> set (connected_clients st)" using m assms(2) by blast
  then have "device_id i = d_device dr0"
    using assms(1) dr0(1) unfolding draining_as_registered_def by fastforce
  then show "device_id i = d_device dr" using dr0(2) by simp
qed

text \<open>What the uninterrupted run does to the dicts.\<close>

lemma connect_effect:
  "draining (connect e st w addr first now ok) = draining st \<and>
   ((set (connected_clients (connect e st w addr first now ok)) \<subseteq> set (connected_clients st) \<and>
     device_commands (connect e st w addr first now ok) = device_commands st) \<or>
    (\<exists>d k. key_of d = Some k \<and>
       set (connected_clients (connect e st w addr first now ok))
         \<subseteq> insert (w, \<lparr>device_id = d, connected_at = now, address = addr\<rparr>)
              (set (connected_clients st)) \<and>
       device_commands (connect e st w addr first now ok) = (device_commands st)(k := None)))"
proof (cases "\<exists>s kvs. first = Recv (TEXT s) \<and> loads e s = Some (JObj kvs)")
  case False
  have nobj: "first = Timeout \<or> (\<exists>m. first = Recv m \<and> (\<forall>s. m \<noteq> TEXT s)) \<or>
        (\<exists>s. first = Recv (TEXT s) \<and> (\<forall>kvs. loads e s \<noteq> Some (JObj kvs)))"
  proof (cases first)
    case Timeout
    then show ?thesis by simp
  next
    case (Recv m)
    then show ?thesis using False by (cases m) auto
  qed
  obtain fl dev st1 where h: "handshake e st w addr first now ok = (fl, dev, st1)"
    by (cases "handshake e st w addr first now ok") auto
  have fl: "fl \<noteq> Next" and cc: "connected_clients st1 = connected_clients st"
    and dc: "device_commands st1 = device_commands st"
    using handshake_not_object [OF nobj, of st w addr now ok] h by simp_all
  have dr: "draining st1 = draining st"
    using h nobj
    by (auto simp: handshake_def dict_get_def emit_def
             split: recv.splits ws_msg.splits option.splits json.splits)
  have c: "connect e st w addr first now ok = ws_finally (ws_except st1 fl addr) w dev addr"
    using fl by (simp add: connect_def h)
  show ?thesis unfolding c
    by (auto simp: ws_finally_clients cc dc dr set_dict_del)
next
  case True
  then obtain s kvs where first: "first = Recv (TEXT s)" and kvs: "loads e s = Some (JObj kvs)"
    by blast
  obtain d where d: "get_item kvs ''device_id''
      (JStr (''device_'' @ str_nat (length (connected_clients st)))) = d" by simp
  define st1 where "st1 = st\<lparr>connected_clients :=
                   dict_set (connected_clients st) w
                     \<lparr>device_id = d, connected_at = now, address = addr\<rparr>,
                 trace := trace st @ [LogConnected d addr]\<rparr>"
  note hs = handshake_reg [OF kvs d st1_def, of ok]
  have torn: "set (connected_clients (ws_finally st' w dev addr)) \<subseteq> set (connected_clients st)"
    if "connected_clients st' = connected_clients st1" for st' dev
    by (auto simp: ws_finally_clients that st1_def dict_del_dict_set set_dict_del)
  have kept: "set (connected_clients st1)
                \<subseteq> insert (w, \<lparr>device_id = d, connected_at = now, address = addr\<rparr>)
                     (set (connected_clients st))"
    using set_dict_set [of "connected_clients st" w] by (simp add: st1_def)
  show ?thesis
  proof (cases "key_of d")
    case None
    have "connect e st w addr first now ok = ws_finally (ws_except st1 (Raise TypeError) addr) w d addr"
      unfolding first by (simp add: connect_def hs None)
    then show ?thesis using torn [of "ws_except st1 (Raise TypeError) addr" d]
      by (simp add: st1_def)
  next
    case (Some k)
    show ?thesis
    proof (cases "device_commands st k")
      case None
      have c: "connect e st w addr first now ok = st1"
        unfolding first by (simp add: connect_def hs Some None)
      have idem: "(device_commands st)(k := None) = device_commands st"
        using None by (simp add: fun_upd_idem)
      have "key_of d = Some k \<and>
            set (connected_clients (connect e st w addr first now ok))
              \<subseteq> insert (w, \<lparr>device_id = d, connected_at = now, address = addr\<rparr>)
                   (set (connected_clients st)) \<and>
            device_commands (connect e st w addr first now ok) = (device_commands st)(k := None)"
        unfolding c using kept Some idem by (simp add: st1_def)
      moreover have "draining (connect e st w addr first now ok) = draining st"
        unfolding c by (simp add: st1_def)
      ultimately show ?thesis by blast
    next
      case cs: (Some cs)
      obtain es x where r: "replay e w ok 0 cs = (es, x)" by (cases "replay e w ok 0 cs")
      show ?thesis
      proof (cases x)
        case None
        have c: "connect e st w addr first now ok =
                st1\<lparr>device_commands := (device_commands st)(k := None),
                    trace := trace st1 @ es @ [LogQueuedSent (length cs) d]\<rparr>"
          unfolding first by (simp add: connect_def hs Some cs r None)
        have "key_of d = Some k \<and>
            set (connected_clients (connect e st w addr first now ok))
              \<subseteq> insert (w, \<lparr>device_id = d, connected_at = now, address = addr\<rparr>)
                   (set (connected_clients st)) \<and>
            device_commands (connect e st w addr first now ok) = (device_commands st)(k := None)"
          unfolding c using kept Some by (simp add: st1_def)
        moreover have "draining (connect e st w addr first now ok) = draining st"
          unfolding c by (simp add: st1_def)
        ultimately show ?thesis by blast
      next
        case x: (Some y)
        have "connect e st w addr first now ok =
                ws_finally (ws_except (st1\<lparr>trace := trace st1 @ es\<rparr>) (Raise y) addr) w d addr"
          unfolding first by (simp add: connect_def hs Some cs r x)
        then show ?thesis
          using torn [of "ws_except (st1\<lparr>trace := trace st1 @ es\<rparr>) (Raise y) addr" d]
          by (simp add: st1_def)
      qed
    qed
  qed
qed

lemma inv_connect:
  assumes A: "backlog_only_while_replaying st" and B: "draining_as_registered st"
    and f: "fresh st w"
  shows "backlog_only_while_replaying (connect e st w addr first now ok) \<and>
         draining_as_registered (connect e st w addr first now ok)"
proof -
  let ?st' = "connect e st w addr first now ok"
  note eff = connect_effect [of e st w addr first now ok]
  have dr: "draining ?st' = draining st" using eff by blast
  from eff consider
    (same) "set (connected_clients ?st') \<subseteq> set (connected_clients st)"
           "device_commands ?st' = device_commands st"
  | (reg) d k where "key_of d = Some k"
      "set (connected_clients ?st')
         \<subseteq> insert (w, \<lparr>device_id = d, connected_at = now, address = addr\<rparr>)
              (set (connected_clients st))"
      "device_commands ?st' = (device_commands st)(k := None)"
    by blast
  then show ?thesis
  proof cases
    case same
    have "backlog_only_while_replaying ?st'"
      using same dr by (intro replaying_frame [OF A]) auto
    moreover have "draining_as_registered ?st'"
      using same dr by (intro registered_frame [OF B]) auto
    ultimately show ?thesis by blast
  next
    case reg
    have a: "backlog_only_while_replaying ?st'"
      unfolding backlog_only_while_replaying_def
    proof (intro ballI, clarify)
      fix v i assume m: "(v, i) \<in> set (connected_clients ?st')"
      show "\<exists>k. key_of (device_id i) = Some k \<and>
                 (device_commands ?st' k = None \<or> draining ?st' v \<noteq> None)"
      proof (cases "(v, i) \<in> set (connected_clients st)")
        case True
        then obtain k' where "key_of (device_id i) = Some k'"
          "device_commands st k' = None \<or> draining st v \<noteq> None"
          using A unfolding backlog_only_while_replaying_def by fastforce
        then show ?thesis unfolding dr reg(3) by auto
      next
        case False
        then have "(v, i) = (w, \<lparr>device_id = d, connected_at = now, address = addr\<rparr>)"
          using m reg(2) by blast
        then show ?thesis using reg(1) unfolding reg(3) by auto
      qed
    qed
    have b: "draining_as_registered ?st'"
      unfolding draining_as_registered_def
    proof (intro ballI, clarify)
      fix v i dr0 assume m: "(v, i) \<in> set (connected_clients ?st')"
        and d0: "draining ?st' v = Some dr0"
      show "device_id i = d_device dr0"
      proof (cases "(v, i) \<in> set (connected_clients st)")
        case True
        then show ?thesis using B d0 unfolding dr draining_as_registered_def by fastforce
      next
        case False
        then have "v = w" using m reg(2) by blast
        then show ?thesis using d0 f unfolding dr fresh_def by simp
      qed
    qed
    show ?thesis using a b by blast
  qed
qed

lemma register_effect:
  "register e st w addr first now = connect e st w addr first now (\<lambda>i. True) \<or>
   (\<exists>d k cmd cs. key_of d = Some k \<and> device_commands st k = Some (cmd # cs) \<and>
      first = Recv (TEXT (case first of Recv (TEXT s) \<Rightarrow> s | _ \<Rightarrow> [])) \<and>
      (\<exists>kvs. loads e (case first of Recv (TEXT s) \<Rightarrow> s | _ \<Rightarrow> []) = Some (JObj kvs) \<and>
         get_item kvs ''device_id''
           (JStr (''device_'' @ str_nat (length (connected_clients st)))) = d) \<and>
      register e st w addr first now =
        st\<lparr>connected_clients :=
              dict_set (connected_clients st) w
                \<lparr>device_id = d, connected_at = now, address = addr\<rparr>,
            trace := trace st @ [LogConnected d addr],
            draining := (draining st)
              (w \<mapsto> \<lparr>d_device = d, d_addr = addr, d_rest = cmd # cs,
                      d_count = Suc (length cs)\<rparr>)\<rparr>)"
  by (auto simp: register_def Let_def emit_def
           split: recv.splits ws_msg.splits option.splits json.splits list.splits)

lemma inv_register:
  assumes A: "backlog_only_while_replaying st" and B: "draining_as_registered st"
    and f: "fresh st w"
  shows "backlog_only_while_replaying (register e st w addr first now) \<and>
         draining_as_registered (register e st w addr first now)"
proof -
  let ?st' = "register e st w addr first now"
  from register_effect [of e st w addr first now] consider
    (conn) "?st' = connect e st w addr first now (\<lambda>i. True)"
  | (susp) d k cmd cs where "key_of d = Some k" "device_commands st k = Some (cmd # cs)"
      "?st' =
        st\<lparr>connected_clients :=
              dict_set (connected_clients st) w
                \<lparr>device_id = d, connected_at = now, address = addr\<rparr>,
            trace := trace st @ [LogConnected d addr],
            draining := (draining st)
              (w \<mapsto> \<lparr>d_device = d, d_addr = addr, d_rest = cmd # cs,
                      d_count = Suc (length cs)\<rparr>)\<rparr>"
    by blast
  then show ?thesis
  proof cases
    case conn
    then show ?thesis using inv_connect [OF A B f] by simp
  next
    case susp
    have cc: "set (connected_clients ?st')
                \<subseteq> insert (w, \<lparr>device_id = d, connected_at = now, address = addr\<rparr>)
                     (set (connected_clients st))"
      unfolding susp(3) using set_dict_set [of "connected_clients st" w] by simp
    have dc: "device_commands ?st' = device_commands st" unfolding susp(3) by simp
    have dw: "draining ?st' w = Some \<lparr>d_device = d, d_addr = addr, d_rest = cmd # cs,
                      d_count = Suc (length cs)\<rparr>"
      unfolding susp(3) by simp
    have dv: "draining ?st' v = draining st v" if "v \<noteq> w" for v
      unfolding susp(3) using that by simp
    have old: "v \<noteq> w" if "(v, i) \<in> set (connected_clients st)" for v i
      using that f unfolding fresh_def by force
    have a: "backlog_only_while_replaying ?st'"
      unfolding backlog_only_while_replaying_def
    proof (intro ballI, clarify)
      fix v i assume m: "(v, i) \<in> set (connected_clients ?st')"
      show "\<exists>k. key_of (device_id i) = Some k \<and>
                 (device_commands ?st' k = None \<or> draining ?st' v \<noteq> None)"
      proof (cases "(v, i) \<in> set (connected_clients st)")
        case True
        then obtain k' where "key_of (device_id i) = Some k'"
          "device_commands st k' = None \<or> draining st v \<noteq> None"
          using A unfolding backlog_only_while_replaying_def by fastforce
        then show ?thesis unfolding dc using dv [OF old [OF True]] by auto
      next
        case False
        then have "(v, i) = (w, \<lparr>device_id = d, connected_at = now, address = addr\<rparr>)"
          using m cc by blast
        then show ?thesis using susp(1) dw by auto
      qed
    qed
    have b: "draining_as_registered ?st'"
      unfolding draining_as_registered_def
    proof (intro ballI, clarify)
      fix v i dr0 assume m: "(v, i) \<in> set (connected_clients ?st')"
        and d0: "draining ?st' v = Some dr0"
      show "device_id i = d_device dr0"
      proof (cases "(v, i) \<in> set (connected_clients st)")
        case True
        then show ?thesis
          using B d0 dv [OF old [OF True]] unfolding draining_as_registered_def by fastforce
      next
        case False
        then have "(v, i) = (w, \<lparr>device_id = d, connected_at = now, address = addr\<rparr>)"
          using m cc by blast
        then show ?thesis using d0 dw by auto
      qed
    qed
    show ?thesis using a b by blast
  qed
qed

lemma inv_leave:
  assumes A: "backlog_only_while_replaying st" and B: "draining_as_registered st"
  shows "backlog_only_while_replaying (leave st w dr x) \<and>
         draining_as_registered (leave st w dr x)"
proof -
  have cc: "connected_clients (leave st w dr x) = dict_del (connected_clients st) w"
    by (simp add: leave_def ws_finally_clients)
  have dc: "device_commands (leave st w dr x) = device_commands st"
    by (simp add: leave_def)
  have dg: "draining (leave st w dr x) = (draining st)(w := None)"
    by (simp add: leave_def)
  have "backlog_only_while_replaying (leave st w dr x)"
    by (rule replaying_frame [OF A]) (auto simp: cc dc dg set_dict_del)
  moreover have "draining_as_registered (leave st w dr x)"
    by (rule registered_frame [OF B]) (auto simp: cc dg set_dict_del split: if_splits)
  ultimately show ?thesis by blast
qed

lemma inv_end_replay:
  assumes A: "backlog_only_while_replaying st" and B: "draining_as_registered st"
    and dr: "draining st w = Some dr0" "d_device dr0 = d_device dr"
  shows "backlog_only_while_replaying (end_replay st w dr) \<and>
         draining_as_registered (end_replay st w dr)"
proof (cases "key_of (d_device dr)")
  case None
  then show ?thesis using inv_leave [OF A B] by (simp add: end_replay_def)
next
  case (Some k)
  show ?thesis
  proof (cases "device_commands st k")
    case None
    then show ?thesis using inv_leave [OF A B] Some by (simp add: end_replay_def)
  next
    case cs: (Some cs)
    let ?st' = "end_replay st w dr"
    have cc: "connected_clients ?st' = connected_clients st"
      and dc: "device_commands ?st' = (device_commands st)(k := None)"
      and dg: "draining ?st' = (draining st)(w := None)"
      using Some cs by (simp_all add: end_replay_def)
    have a: "backlog_only_while_replaying ?st'"
      unfolding backlog_only_while_replaying_def
    proof (intro ballI, clarify)
      fix v i assume "(v, i) \<in> set (connected_clients ?st')"
      then have m: "(v, i) \<in> set (connected_clients st)" unfolding cc .
      obtain k' where k': "key_of (device_id i) = Some k'"
        "device_commands st k' = None \<or> draining st v \<noteq> None"
        using A m unfolding backlog_only_while_replaying_def by fastforce
      show "\<exists>k. key_of (device_id i) = Some k \<and>
                 (device_commands ?st' k = None \<or> draining ?st' v \<noteq> None)"
      proof (cases "v = w")
        case True
        then have "device_id i = d_device dr"
          using B m dr unfolding draining_as_registered_def by fastforce
        then show ?thesis using Some unfolding dc by simp
      next
        case False
        then show ?thesis using k' unfolding dc dg by auto
      qed
    qed
    have b: "draining_as_registered ?st'"
      by (rule registered_frame [OF B]) (auto simp: cc dg split: if_splits)
    show ?thesis using a b by blast
  qed
qed

lemma inv_replay_step:
  assumes A: "backlog_only_while_replaying st" and B: "draining_as_registered st"
  shows "backlog_only_while_replaying (replay_step e st w send_ok) \<and>
         draining_as_registered (replay_step e st w send_ok)"
proof (cases "draining st w")
  case None
  then show ?thesis using A B by (simp add: replay_step_def)
next
  case (Some dr)
  show ?thesis
  proof (cases "d_rest dr")
    case Nil
    then show ?thesis
      using inv_end_replay [OF A B Some refl] Some by (simp add: replay_step_def)
  next
    case (Cons cmd cs)
    show ?thesis
    proof (cases send_ok)
      case False
      then show ?thesis using inv_leave [OF A B] Some Cons by (simp add: replay_step_def)
    next
      case True
      let ?st1 = "emit st [Sent w (dumps e (replay_msg cmd))]"
      have A1: "backlog_only_while_replaying ?st1"
        by (rule replaying_frame [OF A]) auto
      have B1: "draining_as_registered ?st1"
        by (rule registered_frame [OF B]) auto
      show ?thesis
      proof (cases "cs = []")
        case c: True
        have "draining ?st1 w = Some dr" using Some by simp
        then show ?thesis
          using inv_end_replay [OF A1 B1 _ refl, of w dr] Some Cons True c
          by (simp add: replay_step_def)
      next
        case c: False
        let ?st' = "?st1\<lparr>draining := (draining ?st1)(w \<mapsto> dr\<lparr>d_rest := cs\<rparr>)\<rparr>"
        have "backlog_only_while_replaying ?st'"
          by (rule replaying_frame [OF A]) auto
        moreover have "draining_as_registered ?st'"
          using Some by (intro registered_frame [OF B]) (auto split: if_splits)
        ultimately show ?thesis using Some Cons True c by (simp add: replay_step_def Let_def)
      qed
    qed
  qed
qed

lemma inv_dispatch:
  assumes A: "backlog_only_while_replaying st" and B: "draining_as_registered st"
  shows "backlog_only_while_replaying (snd (dispatch e st d c p now send_ok)) \<and>
         draining_as_registered (snd (dispatch e st d c p now send_ok))"
proof (cases "find_target (connected_clients st) d")
  case (Some w)
  then show ?thesis using A B
    by (simp add: dispatch_def backlog_only_while_replaying_def draining_as_registered_def)
next
  case None
  show ?thesis
  proof (cases "key_of d")
    case no: None
    then show ?thesis using A B None by (simp add: dispatch_def)
  next
    case (Some k)
    let ?st' = "st\<lparr>device_commands := (device_commands st)
                 (k \<mapsto> backlog st k @ [\<lparr>command = c, params = p, timestamp = now\<rparr>])\<rparr>"
    have a: "backlog_only_while_replaying ?st'"
      unfolding backlog_only_while_replaying_def
    proof (intro ballI, clarify)
      fix w i assume "(w, i) \<in> set (connected_clients ?st')"
      then have mem: "(w, i) \<in> set (connected_clients st)" by simp
      obtain k' where k': "key_of (device_id i) = Some k'"
        "device_commands st k' = None \<or> draining st w \<noteq> None"
        using A mem unfolding backlog_only_while_replaying_def by fastforce
      have "\<not> py_eq (device_id i) d"
        using None mem by (auto simp: find_target_None)
      then have "k' \<noteq> k" using py_eq_key [OF k'(1), of d] Some by simp
      then show "\<exists>k. key_of (device_id i) = Some k \<and>
                    (device_commands ?st' k = None \<or> draining ?st' w \<noteq> None)"
        using k' by simp
    qed
    have b: "draining_as_registered ?st'"
      by (rule registered_frame [OF B]) auto
    show ?thesis using a b None Some by (simp add: dispatch_def)
  qed
qed

lemma inv_send_command:
  assumes A: "backlog_only_while_replaying st" and B: "draining_as_registered st"
  shows "backlog_only_while_replaying (snd (send_command e st raw now send_ok)) \<and>
         draining_as_registered (snd (send_command e st raw now send_ok))"
proof -
  let ?t = "snd (send_command_try e st raw now send_ok)"
  have t: "backlog_only_while_replaying ?t \<and> draining_as_registered ?t"
    using A B inv_dispatch [OF A B]
    by (auto simp: send_command_try_def dict_get_def split: option.splits json.splits)
  have "backlog_only_while_replaying (emit ?t es) \<and> draining_as_registered (emit ?t es)" for es
    using t by (simp add: backlog_only_while_replaying_def draining_as_registered_def)
  then show ?thesis using t
    by (cases "send_command_try e st raw now send_ok")
       (auto simp: send_command_def split: sum.splits)
qed

lemma inv_step:
  assumes A: "backlog_only_while_replaying st" and B: "draining_as_registered st"
  shows "backlog_only_while_replaying (step e st a) \<and> draining_as_registered (step e st a)"
proof (cases a)
  case (Dispatch raw now send_ok)
  then show ?thesis using inv_send_command [OF A B] by simp
next
  case (Connect w addr first now ok)
  then show ?thesis using inv_connect [OF A B] A B by simp
next
  case (Register w addr first now)
  then show ?thesis using inv_register [OF A B] A B by simp
next
  case (Replay w send_ok)
  then show ?thesis using inv_replay_step [OF A B] by simp
next
  case (Disconnect w frames)
  have "backlog_only_while_replaying (ws_finally (emit st es) w dev addr) \<and>
        draining_as_registered (ws_finally (emit st es) w dev addr)" for es dev addr
  proof -
    have "backlog_only_while_replaying (ws_finally (emit st es) w dev addr)"
      by (rule replaying_frame [OF A]) (auto simp: ws_finally_clients set_dict_del)
    moreover have "draining_as_registered (ws_finally (emit st es) w dev addr)"
      by (rule registered_frame [OF B]) (auto simp: ws_finally_clients set_dict_del)
    ultimately show ?thesis by blast
  qed
  then show ?thesis unfolding Disconnect using A B by (simp split: option.splits)
qed

lemma exec_snoc: "exec e (acts @ [a]) = step e (exec e acts) a"
  by (simp add: exec_def)

lemma inv_exec:
  "backlog_only_while_replaying (exec e acts) \<and> draining_as_registered (exec e acts)"
proof (induction acts rule: rev_induct)
  case Nil
  show ?case
    by (simp add: exec_def init_state_def backlog_only_while_replaying_def
          draining_as_registered_def)
next
  case (snoc a acts)
  then show ?case using inv_step [of "exec e acts" e a] by (simp add: exec_snoc)
qed

text \<open>
  In a state that the server can reach, commands are queued under the identifier of a
  registered connection only while that connection is suspended in its replay loop.
\<close>

lemma registered_backlog:
  assumes "find_target (connected_clients (exec e acts)) d = Some w"
    and "key_of d = Some k"
  shows "device_commands (exec e acts) k = None \<or> draining (exec e acts) w \<noteq> None"
proof -
  obtain i where i: "(w, i) \<in> set (connected_clients (exec e acts))" "py_eq (device_id i) d"
    using find_target_Some [OF assms(1)] by blast
  obtain k' where k': "key_of (device_id i) = Some k'"
    "device_commands (exec e acts) k' = None \<or> draining (exec e acts) w \<noteq> None"
    using inv_exec [of e acts] i(1) unfolding backlog_only_while_replaying_def by fastforce
  have "key_of d = Some k'" using py_eq_key [OF k'(1), of d] i(2) by simp
  then show ?thesis using assms(2) k'(2) by simp
qed

section \<open>The uninterrupted run among the interleaved ones\<close>

lemma resume_idle: "draining st w = None \<Longrightarrow> resume e st w ok i n = st"
  by (induction n arbitrary: i) (simp_all add: replay_step_def)

lemma leave_draining [simp]: "draining (leave st w dr x) w = None"
  by (simp add: leave_def)

lemma end_replay_draining [simp]: "draining (end_replay st w dr) w = None"
  by (simp add: end_replay_def split: option.splits)

lemma leave_cong:
  "draining st' = (draining st)(w \<mapsto> dr') \<Longrightarrow> connected_clients st' = connected_clients st \<Longrightarrow>
   device_commands st' = device_commands st \<Longrightarrow> trace st' = trace st \<Longrightarrow>
   d_device dr' = d_device dr \<Longrightarrow> d_addr dr' = d_addr dr \<Longrightarrow>
   leave st' w dr' x = leave st w dr x"
  by (simp add: leave_def ws_finally_def ws_except_def emit_def)

lemma end_replay_cong:
  "draining st' = (draining st)(w \<mapsto> dr') \<Longrightarrow> connected_clients st' = connected_clients st \<Longrightarrow>
   device_commands st' = device_commands st \<Longrightarrow> trace st' = trace st \<Longrightarrow>
   d_device dr' = d_device dr \<Longrightarrow> d_addr dr' = d_addr dr \<Longrightarrow> d_count dr' = d_count dr \<Longrightarrow>
   end_replay st' w dr' = end_replay st w dr"
  by (simp add: end_replay_def leave_cong emit_def split: option.splits)

lemma resume_replay:
  assumes "draining st w = Some dr" and "d_rest dr = rest" and "rest \<noteq> []"
    and "length rest \<le> n"
  shows "resume e st w ok i n =
           (case replay e w ok i rest of
              (es, None) \<Rightarrow> end_replay (emit st es) w dr
            | (es, Some x) \<Rightarrow> leave (emit st es) w dr x)"
  using assms
proof (induction rest arbitrary: st dr i n)
  case Nil
  then show ?case by simp
next
  case (Cons c rest)
  obtain n' where n: "n = Suc n'" using Cons.prems(4) by (cases n) auto
  show ?case
  proof (cases "ok i")
    case False
    have "step e st (Replay w (ok i)) = leave st w dr SendError"
      using Cons.prems(1,2) False by (simp add: replay_step_def)
    then show ?thesis using False unfolding n by (simp add: resume_idle)
  next
    case True
    let ?st1 = "emit st [Sent w (dumps e (replay_msg c))]"
    show ?thesis
    proof (cases "rest = []")
      case r: True
      have "step e st (Replay w (ok i)) = end_replay ?st1 w dr"
        using Cons.prems(1,2) True r by (simp add: replay_step_def)
      then show ?thesis using True r unfolding n by (simp add: resume_idle)
    next
      case r: False
      let ?dr' = "dr\<lparr>d_rest := rest\<rparr>"
      let ?st' = "?st1\<lparr>draining := (draining ?st1)(w \<mapsto> ?dr')\<rparr>"
      have s: "step e st (Replay w (ok i)) = ?st'"
        using Cons.prems(1,2) True r by (simp add: replay_step_def Let_def)
      have ih: "resume e ?st' w ok (Suc i) n' =
                  (case replay e w ok (Suc i) rest of
                     (es, None) \<Rightarrow> end_replay (emit ?st' es) w ?dr'
                   | (es, Some x) \<Rightarrow> leave (emit ?st' es) w ?dr' x)"
        using Cons.prems(4) r n by (intro Cons.IH) simp_all
      obtain es x where rp: "replay e w ok (Suc i) rest = (es, x)"
        by (cases "replay e w ok (Suc i) rest")
      have e1: "end_replay (emit ?st' es) w ?dr' =
                  end_replay (emit st (Sent w (dumps e (replay_msg c)) # es)) w dr"
        by (rule end_replay_cong) (simp_all add: emit_def)
      have l1: "leave (emit ?st' es) w ?dr' y =
                  leave (emit st (Sent w (dumps e (replay_msg c)) # es)) w dr y" for y
        by (rule leave_cong) (simp_all add: emit_def)
      show ?thesis
        unfolding n using True s ih rp e1 l1 by (simp split: option.splits)
    qed
  qed
qed

text \<open>
  The run without interruption is one of the interleaved runs: it is the run to the first
  send followed by as many resumptions as there are commands to send, with no other
  handler in between.
\<close>

lemma connect_as_register_resume:
  assumes "fresh st w" and "loads e s = Some (JObj kvs)"
    and "get_item kvs ''device_id''
           (JStr (''device_'' @ str_nat (length (connected_clients st)))) = d"
    and "key_of d = Some k" and "device_commands st k = Some (cmd # cs)"
    and "Suc (length cs) \<le> n"
  shows "resume e (step e st (Register w addr (Recv (TEXT s)) now)) w ok 0 n =
           step e st (Connect w addr (Recv (TEXT s)) now ok)"
proof -
  let ?dr = "\<lparr>d_device = d, d_addr = addr, d_rest = cmd # cs, d_count = Suc (length cs)\<rparr>"
  define st1 where "st1 = st\<lparr>connected_clients :=
                   dict_set (connected_clients st) w
                     \<lparr>device_id = d, connected_at = now, address = addr\<rparr>,
                 trace := trace st @ [LogConnected d addr]\<rparr>"
  let ?sr = "st1\<lparr>draining := (draining st)(w \<mapsto> ?dr)\<rparr>"
  have reg: "step e st (Register w addr (Recv (TEXT s)) now) = ?sr"
    using assms(1-5) by (simp add: register_def Let_def emit_def st1_def)
  have idem: "(draining st)(w := None) = draining st"
    using assms(1) by (simp add: fresh_def fun_upd_idem)
  obtain es x where rp: "replay e w ok 0 (cmd # cs) = (es, x)"
    by (cases "replay e w ok 0 (cmd # cs)")
  have res: "resume e ?sr w ok 0 n =
               (case replay e w ok 0 (cmd # cs) of
                  (es, None) \<Rightarrow> end_replay (emit ?sr es) w ?dr
                | (es, Some x) \<Rightarrow> leave (emit ?sr es) w ?dr x)"
    using assms(6) by (intro resume_replay) simp_all
  have con: "step e st (Connect w addr (Recv (TEXT s)) now ok) =
               (case x of
                  None \<Rightarrow> st1\<lparr>device_commands := (device_commands st)(k := None),
                              trace := trace st1 @ es @ [LogQueuedSent (length (cmd # cs)) d]\<rparr>
                | Some y \<Rightarrow> ws_finally (ws_except (st1\<lparr>trace := trace st1 @ es\<rparr>) (Raise y) addr)
                             w d addr)"
    using assms(1,4,5) rp
    by (simp add: connect_def handshake_reg [OF assms(2,3) st1_def] split: option.splits)
  show ?thesis
  proof (cases x)
    case None
    have "end_replay (emit ?sr es) w ?dr =
            st1\<lparr>device_commands := (device_commands st)(k := None),
                trace := trace st1 @ es @ [LogQueuedSent (length (cmd # cs)) d]\<rparr>"
      using assms(4,5) idem by (simp add: end_replay_def emit_def st1_def)
    then show ?thesis unfolding reg res con rp using None by simp
  next
    case (Some y)
    have "leave (emit ?sr es) w ?dr y =
            ws_finally (ws_except (st1\<lparr>trace := trace st1 @ es\<rparr>) (Raise y) addr) w d addr"
      using idem by (simp add: leave_def emit_def st1_def ws_finally_def ws_except_def)
    then show ?thesis unfolding reg res con rp using Some by simp
  qed
qed

lemma connect_without_send:
  assumes "\<not> (\<exists>s kvs k cmd cs. first = Recv (TEXT s) \<and> loads e s = Some (JObj kvs) \<and>
              key_of (get_item kvs ''device_id''
                (JStr (''device_'' @ str_nat (length (connected_clients st))))) = Some k \<and>
              device_commands st k = Some (cmd # cs))"
  shows "register e st w addr first now = connect e st w addr first now ok"
proof -
  have h: "handshake e st w addr first now (\<lambda>i. True) = handshake e st w addr first now ok"
  proof (cases "\<exists>s kvs. first = Recv (TEXT s) \<and> loads e s = Some (JObj kvs)")
    case False
    then show ?thesis
      by (auto simp: handshake_def dict_get_def
               split: recv.splits ws_msg.splits option.splits json.splits)
  next
    case True
    then obtain s kvs where first: "first = Recv (TEXT s)" and kvs: "loads e s = Some (JObj kvs)"
      by blast
    obtain d where d: "get_item kvs ''device_id''
        (JStr (''device_'' @ str_nat (length (connected_clients st)))) = d" by simp
    note hs = handshake_reg [OF kvs d refl]
    show ?thesis
    proof (cases "key_of d")
      case None
      then show ?thesis unfolding first by (simp add: hs)
    next
      case (Some k)
      show ?thesis
      proof (cases "device_commands st k")
        case None
        then show ?thesis unfolding first using Some by (simp add: hs)
      next
        case cs: (Some cs)
        have "cs = []" using assms first kvs d Some cs by (cases cs) auto
        then show ?thesis unfolding first using Some cs by (simp add: hs)
      qed
    qed
  qed
  have "register e st w addr first now = connect e st w addr first now (\<lambda>i. True)"
    using assms
    by (auto simp: register_def Let_def
             split: recv.splits ws_msg.splits option.splits json.splits list.splits)
  then show ?thesis by (simp add: connect_def h)
qed

lemma connect_is_a_schedule:
  assumes "fresh st w"
  shows "\<exists>n. resume e (step e st (Register w addr first now)) w ok 0 n =
              step e st (Connect w addr first now ok)"
proof (cases "\<exists>s kvs k cmd cs. first = Recv (TEXT s) \<and> loads e s = Some (JObj kvs) \<and>
              key_of (get_item kvs ''device_id''
                (JStr (''device_'' @ str_nat (length (connected_clients st))))) = Some k \<and>
              device_commands st k = Some (cmd # cs)")
  case True
  then obtain s kvs k cmd cs where *: "first = Recv (TEXT s)" "loads e s = Some (JObj kvs)"
    "key_of (get_item kvs ''device_id''
        (JStr (''device_'' @ str_nat (length (connected_clients st))))) = Some k"
    "device_commands st k = Some (cmd # cs)"
    by blast
  have "resume e (step e st (Register w addr (Recv (TEXT s)) now)) w ok 0 (Suc (length cs)) =
           step e st (Connect w addr (Recv (TEXT s)) now ok)"
    by (rule connect_as_register_resume [OF assms *(2) refl *(3,4)]) simp
  then show ?thesis unfolding *(1) by blast
next
  case False
  have "resume e (step e st (Register w addr first now)) w ok 0 0 =
          step e st (Connect w addr first now ok)"
    using assms connect_without_send [OF False] by simp
  then show ?thesis by blast
qed

section \<open>Sending the queued commands at registration\<close>

lemma handshake_drain_ok:
  assumes "loads e s = Some (JObj kvs)"
    and "get_item kvs ''device_id''
           (JStr (''device_'' @ str_nat (length (connected_clients st)))) = d"
    and "key_of d = Some k"
    and "\<forall>j<length (backlog st k). ok j"
  shows "handshake e st w addr (Recv (TEXT s)) now ok =
           (Next, d,
            st\<lparr>connected_clients :=
                  dict_set (connected_clients st) w
                    \<lparr>device_id = d, connected_at = now, address = addr\<rparr>,
                device_commands := (device_commands st)(k := None),
                trace := trace st @ LogConnected d addr #
                  map (\<lambda>c. Sent w (dumps e (replay_msg c))) (backlog st k) @
                  (if device_commands st k = None then []
                   else [LogQueuedSent (length (backlog st k)) d])\<rparr>)"
proof (cases "device_commands st k")
  case None
  then have "(device_commands st)(k := None) = device_commands st"
    by (simp add: fun_upd_idem)
  then show ?thesis
    using None assms(3) by (simp add: handshake_reg [OF assms(1,2) refl] backlog_def)
next
  case (Some cs)
  then have "\<forall>j<length cs. ok (0 + j)" using assms(4) by (simp add: backlog_def)
  then have "replay e w ok 0 cs = (map (\<lambda>c. Sent w (dumps e (replay_msg c))) cs, None)"
    by (rule replay_all_ok)
  then show ?thesis
    using Some assms(3) by (simp add: handshake_reg [OF assms(1,2) refl] backlog_def)
qed














section \<open>Dispatch: queued or sent\<close>

lemma mid_drain_eq:
  "mid_drain =
     \<lparr>connected_clients =
        [(11, \<lparr>device_id = JStr ''X'', connected_at = ''t1'', address = ''10.0.0.1''\<rparr>)],
      device_commands =
        [KStr ''X'' \<mapsto> [\<lparr>command = JStr ''lock'', params = JObj [], timestamp = ''t0''\<rparr>]],
      trace = [LogConnected (JStr ''X'') ''10.0.0.1''],
      draining =
        [11 \<mapsto> \<lparr>d_device = JStr ''X'', d_addr = ''10.0.0.1'',
                 d_rest = [\<lparr>command = JStr ''lock'', params = JObj [], timestamp = ''t0''\<rparr>],
                 d_count = 1\<rparr>]\<rparr>"
  by (simp add: exec_def init_state_def fresh_def register_def send_command_def
        send_command_try_def dispatch_def env0_def loads0_def dict_get_def get_item_def
        backlog_def json_response_def emit_def Let_def)

lemma photo_X_loads:
  \<open>loads env0 photo_X =
     Some (JObj [(''device_id'', JStr ''X''), (''command'', JStr ''photo''),
                 (''params'', JObj [(''cam'', JInt 1)])])\<close>
  by (simp add: env0_def loads0_def)

text \<open>
  C3, as stated, at two concrete inputs. A command for \<^verbatim>\<open>X\<close> while no device is connected:
  the reply to a queued command has the keys \<^verbatim>\<open>status\<close> and \<^verbatim>\<open>message\<close>; it has no key
  \<^verbatim>\<open>command\<close>. A command for \<^verbatim>\<open>X\<close> while connection 11 has registered \<^verbatim>\<open>X\<close> and is
  suspended at the first send of its replay: the command is sent, and the backlog of \<^verbatim>\<open>X\<close>
  is still in the queue.
\<close>

theorem queued_reply_counterexample:
  "fst (send_command env0 init_state lock_X ''t0'' True) =
     \<lparr>status = 200,
      body = JObj [(''status'', JStr ''queued''),
                   (''message'', JStr ''Device not connected, command queued'')]\<rparr> \<and>
   find_target (connected_clients mid_drain) (JStr ''X'') = Some 11 \<and>
   fst (send_command env0 mid_drain photo_X ''t2'' True) =
     \<lparr>status = 200, body = JObj [(''status'', JStr ''sent''), (''command'', JStr ''photo'')]\<rparr> \<and>
   device_commands (snd (send_command env0 mid_drain photo_X ''t2'' True)) (KStr ''X'') =
     Some [\<lparr>command = JStr ''lock'', params = JObj [], timestamp = ''t0''\<rparr>]"
proof -
  have q: "fst (send_command env0 init_state lock_X ''t0'' True) =
     \<lparr>status = 200,
      body = JObj [(''status'', JStr ''queued''),
                   (''message'', JStr ''Device not connected, command queued'')]\<rparr>"
    by (simp add: send_command_def send_command_try_def dispatch_def init_state_def
          env0_def loads0_def dict_get_def get_item_def json_response_def)
  have t: "find_target (connected_clients mid_drain) (JStr ''X'') = Some 11"
    unfolding mid_drain_eq by simp
  have t': "find_target (connected_clients mid_drain)
              (get_item [(''device_id'', JStr ''X''), (''command'', JStr ''photo''),
                         (''params'', JObj [(''cam'', JInt 1)])] ''device_id'' (JStr ''default'')) =
            Some 11"
    using t by (simp add: get_item_def)
  have s: "fst (send_command env0 mid_drain photo_X ''t2'' True) =
             \<lparr>status = 200, body = JObj [(''status'', JStr ''sent''), (''command'', JStr ''photo'')]\<rparr>"
    and b: "device_commands (snd (send_command env0 mid_drain photo_X ''t2'' True)) (KStr ''X'') =
             Some [\<lparr>command = JStr ''lock'', params = JObj [], timestamp = ''t0''\<rparr>]"
    unfolding send_command_hit_ok [OF photo_X_loads t']
    unfolding mid_drain_eq by (simp_all add: get_item_def json_response_def)
  show ?thesis using q t s b by blast
qed

text \<open>
  C3, amended. A request that is a dict asks for the device \<open>d\<close>, the command \<open>c\<close> and the
  parameters \<open>p\<close>.

  If no registered connection carries \<open>d\<close> (and \<open>d\<close> is a string or another hashable
  value), the reply is \<^verbatim>\<open>{"status": "queued", "message": "Device not connected, command
  queued"}\<close>, the command with the time of the call is appended at the end of the backlog
  of \<open>d\<close>, and nothing is sent; a connection that registers \<open>d\<close> next, with sound sends, is
  sent the earlier backlog and then this command.

  If a registered connection carries \<open>d\<close> and the send succeeds, the reply is
  \<^verbatim>\<open>{"status": "sent", "command": c}\<close>, the command message is sent on the first such
  connection, and the queue is unchanged; in every state the server can reach, under any
  interleaving of the handlers, the queue has no entry for \<open>d\<close> unless that connection is
  still suspended in the replay of the backlog it found when it registered.
\<close>

theorem dispatch_queues_or_sends:
  assumes "loads e raw = Some (JObj kvs)"
    and "get_item kvs ''device_id'' (JStr ''default'') = d"
    and "get_item kvs ''command'' JNull = c"
    and "get_item kvs ''params'' (JObj []) = p"
  shows "(find_target (connected_clients st) d = None \<longrightarrow> key_of d = Some k \<longrightarrow>
            fst (send_command e st raw now send_ok) =
              json_response [(''status'', JStr ''queued''),
                             (''message'', JStr ''Device not connected, command queued'')] \<and>
            backlog (snd (send_command e st raw now send_ok)) k =
              backlog st k @ [\<lparr>command = c, params = p, timestamp = now\<rparr>] \<and>
            connected_clients (snd (send_command e st raw now send_ok)) = connected_clients st \<and>
            trace (snd (send_command e st raw now send_ok)) = trace st \<and>
            (loads e s' = Some (JObj [(''device_id'', d)]) \<longrightarrow>
             (\<forall>j\<le>length (backlog st k). ok j) \<longrightarrow>
               trace (snd (snd (handshake e (snd (send_command e st raw now send_ok))
                                  w' addr (Recv (TEXT s')) now' ok))) =
                 trace st @ LogConnected d addr #
                   map (\<lambda>q. Sent w' (dumps e (replay_msg q)))
                     (backlog st k @ [\<lparr>command = c, params = p, timestamp = now\<rparr>]) @
                   [LogQueuedSent (Suc (length (backlog st k))) d])) \<and>
         (find_target (connected_clients st) d = Some w \<longrightarrow>
            fst (send_command e st raw now True) =
              json_response [(''status'', JStr ''sent''), (''command'', c)] \<and>
            trace (snd (send_command e st raw now True)) =
              trace st @ [Sent w (dumps e (command_msg c p now)), LogCommandSent d c] \<and>
            device_commands (snd (send_command e st raw now True)) = device_commands st \<and>
            connected_clients (snd (send_command e st raw now True)) = connected_clients st \<and>
            (\<forall>acts k. st = exec e acts \<longrightarrow> key_of d = Some k \<longrightarrow>
               device_commands (snd (send_command e st raw now True)) k = None \<or>
               draining st w \<noteq> None))"
proof (intro conjI impI)
  assume miss: "find_target (connected_clients st) d = None" and k: "key_of d = Some k"
  let ?st' = "st\<lparr>device_commands := (device_commands st)
                 (k \<mapsto> backlog st k @ [\<lparr>command = c, params = p, timestamp = now\<rparr>])\<rparr>"
  have sc: "send_command e st raw now send_ok =
              (json_response [(''status'', JStr ''queued''),
                              (''message'', JStr ''Device not connected, command queued'')], ?st')"
    using send_command_miss [OF assms(1), of st k now send_ok] miss k
    unfolding assms(2,3,4) by simp
  show "fst (send_command e st raw now send_ok) =
          json_response [(''status'', JStr ''queued''),
                         (''message'', JStr ''Device not connected, command queued'')]"
    and "backlog (snd (send_command e st raw now send_ok)) k =
           backlog st k @ [\<lparr>command = c, params = p, timestamp = now\<rparr>]"
    and "connected_clients (snd (send_command e st raw now send_ok)) = connected_clients st"
    and "trace (snd (send_command e st raw now send_ok)) = trace st"
    unfolding sc by (simp_all add: backlog_def)
  assume reg: "loads e s' = Some (JObj [(''device_id'', d)])"
    and ok: "\<forall>j\<le>length (backlog st k). ok j"
  have b': "backlog ?st' k = backlog st k @ [\<lparr>command = c, params = p, timestamp = now\<rparr>]"
    by (simp add: backlog_def)
  have d': "get_item [(''device_id'', d)] ''device_id''
              (JStr (''device_'' @ str_nat (length (connected_clients ?st')))) = d"
    by (simp add: get_item_def)
  have ok': "\<forall>j<length (backlog ?st' k). ok j" unfolding b' using ok by simp
  show "trace (snd (snd (handshake e (snd (send_command e st raw now send_ok))
                                  w' addr (Recv (TEXT s')) now' ok))) =
                 trace st @ LogConnected d addr #
                   map (\<lambda>q. Sent w' (dumps e (replay_msg q)))
                     (backlog st k @ [\<lparr>command = c, params = p, timestamp = now\<rparr>]) @
                   [LogQueuedSent (Suc (length (backlog st k))) d]"
    unfolding sc snd_conv handshake_drain_ok [OF reg d' k ok'] b' by simp
next
  assume hit: "find_target (connected_clients st) d = Some w"
  have sc: "send_command e st raw now True =
              (json_response [(''status'', JStr ''sent''), (''command'', c)],
               emit st [Sent w (dumps e (command_msg c p now)), LogCommandSent d c])"
    using send_command_hit_ok [OF assms(1), of st w now] hit unfolding assms(2,3,4) by simp
  show "fst (send_command e st raw now True) =
          json_response [(''status'', JStr ''sent''), (''command'', c)]"
    and "trace (snd (send_command e st raw now True)) =
           trace st @ [Sent w (dumps e (command_msg c p now)), LogCommandSent d c]"
    and "device_commands (snd (send_command e st raw now True)) = device_commands st"
    and "connected_clients (snd (send_command e st raw now True)) = connected_clients st"
    unfolding sc by simp_all
  show "\<forall>acts k. st = exec e acts \<longrightarrow> key_of d = Some k \<longrightarrow>
               device_commands (snd (send_command e st raw now True)) k = None \<or>
               draining st w \<noteq> None"
  proof (intro allI impI)
    fix acts k assume st: "st = exec e acts" and k: "key_of d = Some k"
    have "device_commands (exec e acts) k = None \<or> draining (exec e acts) w \<noteq> None"
      using registered_backlog [of e acts d w k] hit st k by simp
    moreover have "device_commands (snd (send_command e st raw now True)) = device_commands st"
      unfolding sc by simp
    ultimately show "device_commands (snd (send_command e st raw now True)) k = None \<or>
               draining st w \<noteq> None"
      using st by simp
  qed
qed

text \<open>
  A command for \<^verbatim>\<open>X\<close> with nobody connected is queued and replayed to the connection that
  registers \<^verbatim>\<open>X\<close>; with \<^verbatim>\<open>X\<close> connected it is sent at once and nothing is queued.
\<close>

theorem dispatch_queues_or_sends_witness:
  "fst (send_command env0 init_state lock_X ''t0'' True) =
     json_response [(''status'', JStr ''queued''),
                    (''message'', JStr ''Device not connected, command queued'')] \<and>
   backlog (snd (send_command env0 init_state lock_X ''t0'' True)) (KStr ''X'') =
     [\<lparr>command = JStr ''lock'', params = JObj [], timestamp = ''t0''\<rparr>] \<and>
   trace (snd (snd (handshake env0 (snd (send_command env0 init_state lock_X ''t0'' True))
                      11 ''10.0.0.1'' (Recv (TEXT reg_X)) ''t1'' (\<lambda>i. True)))) =
     [LogConnected (JStr ''X'') ''10.0.0.1'',
      Sent 11 (dumps0 (replay_msg \<lparr>command = JStr ''lock'', params = JObj [], timestamp = ''t0''\<rparr>)),
      LogQueuedSent 1 (JStr ''X'')] \<and>
   fst (send_command env0 one_device lock_X ''t1'' True) =
     json_response [(''status'', JStr ''sent''), (''command'', JStr ''lock'')] \<and>
   trace (snd (send_command env0 one_device lock_X ''t1'' True)) =
     trace one_device @ [Sent 11 (dumps0 (command_msg (JStr ''lock'') (JObj []) ''t1'')),
                         LogCommandSent (JStr ''X'') (JStr ''lock'')] \<and>
   device_commands (snd (send_command env0 one_device lock_X ''t1'' True)) (KStr ''X'') = None"
proof -
  let ?kvs = "[(''device_id'', JStr ''X''), (''command'', JStr ''lock'')]"
  have d: "get_item ?kvs ''device_id'' (JStr ''default'') = JStr ''X''"
    and c: "get_item ?kvs ''command'' JNull = JStr ''lock''"
    and p: "get_item ?kvs ''params'' (JObj []) = JObj []"
    by (simp_all add: get_item_def)
  have miss: "find_target (connected_clients init_state) (JStr ''X'') = None"
    by (simp add: init_state_def)
  have k: "key_of (JStr ''X'') = Some (KStr ''X'')" by simp
  have b0: "backlog init_state (KStr ''X'') = []" by (simp add: backlog_def init_state_def)
  have t0: "trace init_state = []" by (simp add: init_state_def)
  have dumps: "dumps env0 = dumps0" by (simp add: env0_def)
  have acts: "one_device = exec env0 [Connect 11 ''10.0.0.1'' (Recv (TEXT reg_X)) ''t0'' (\<lambda>i. True)]"
    by simp
  have ok: "\<forall>j\<le>length (backlog init_state (KStr ''X'')). (\<lambda>i. True) j" by simp
  note q = dispatch_queues_or_sends [OF lock_X_loads d c p, of init_state "KStr ''X''" "''t0''" True
      reg_X "\<lambda>i. True" 11 "''10.0.0.1''" "''t1''"]
  note s = dispatch_queues_or_sends [OF lock_X_loads d c p, of one_device _ "''t1''" _ _ _ _ _ _ 11]
  have q1: "fst (send_command env0 init_state lock_X ''t0'' True) =
     json_response [(''status'', JStr ''queued''),
                    (''message'', JStr ''Device not connected, command queued'')]"
    and q2: "backlog (snd (send_command env0 init_state lock_X ''t0'' True)) (KStr ''X'') =
     [\<lparr>command = JStr ''lock'', params = JObj [], timestamp = ''t0''\<rparr>]"
    and q3: "trace (snd (snd (handshake env0 (snd (send_command env0 init_state lock_X ''t0'' True))
                      11 ''10.0.0.1'' (Recv (TEXT reg_X)) ''t1'' (\<lambda>i. True)))) =
     [LogConnected (JStr ''X'') ''10.0.0.1'',
      Sent 11 (dumps0 (replay_msg \<lparr>command = JStr ''lock'', params = JObj [], timestamp = ''t0''\<rparr>)),
      LogQueuedSent 1 (JStr ''X'')]"
    using q miss k reg_X_loads ok unfolding b0 t0 dumps by simp_all
  have s1: "fst (send_command env0 one_device lock_X ''t1'' True) =
     json_response [(''status'', JStr ''sent''), (''command'', JStr ''lock'')]"
    and s2: "trace (snd (send_command env0 one_device lock_X ''t1'' True)) =
     trace one_device @ [Sent 11 (dumps0 (command_msg (JStr ''lock'') (JObj []) ''t1'')),
                         LogCommandSent (JStr ''X'') (JStr ''lock'')]"
    using s one_device_target unfolding dumps by blast+
  have dn: "draining one_device 11 = None" unfolding one_device_eq by simp
  have s3: "device_commands (snd (send_command env0 one_device lock_X ''t1'' True)) (KStr ''X'') = None"
    using s one_device_target k acts dn by blast
  show ?thesis using q1 q2 q3 s1 s2 s3 by blast
qed


section \<open>Frames that the loop cannot use\<close>

lemma handle_text_flashlight:
  assumes "loads e s = Some (JObj kvs)" and "get_item kvs ''type'' JNull = JStr ''flashlight''"
  shows "handle_text e dev s now =
           [LogFlashlight dev (if truthy (get_item kvs ''status'' JNull) then ''ON'' else ''OFF'') now]"
  using assms by (simp add: handle_text_def)

lemma handle_text_unusable:
  assumes "loads e s = None \<or> (\<exists>v. loads e s = Some v \<and> (\<forall>kvs. v \<noteq> JObj kvs)) \<or>
           (\<exists>kvs. loads e s = Some (JObj kvs) \<and>
              get_item kvs ''type'' JNull \<notin>
                {JStr ''screen_capture'', JStr ''notification'', JStr ''flashlight'',
                 JStr ''command_response''})"
  shows "handle_text e dev s now =
           (if loads e s = None then [LogInvalidJSON (take 100 s)]
            else if (\<exists>kvs. loads e s = Some (JObj kvs)) then []
            else [LogError AttributeError])"
  using assms by (auto simp: handle_text_def split: json.splits)

text \<open>
  C6. A text frame that does not parse, or parses to something that is not a dict, or
  parses to a dict whose \<^verbatim>\<open>type\<close> is missing or is none of the four known types: the loop
  prints at most an error line for it (nothing for an unknown type), hands nothing to a
  sink, closes nothing, and goes on with the next frame; a flashlight message that follows
  is logged with its status, and the loop continues with the frames after it.
\<close>

theorem malformed_frame_resilience:
  assumes "loads e s = None \<or> (\<exists>v. loads e s = Some v \<and> (\<forall>kvs. v \<noteq> JObj kvs)) \<or>
           (\<exists>kvs. loads e s = Some (JObj kvs) \<and>
              get_item kvs ''type'' JNull \<notin>
                {JStr ''screen_capture'', JStr ''notification'', JStr ''flashlight'',
                 JStr ''command_response''})"
    and "loads e s' = Some (JObj kvs')"
    and "get_item kvs' ''type'' JNull = JStr ''flashlight''"
  shows "route e dev ((TEXT s, t) # (TEXT s', t') # rest) =
           handle_text e dev s t @
           LogFlashlight dev (if truthy (get_item kvs' ''status'' JNull) then ''ON'' else ''OFF'') t' #
           route e dev rest \<and>
         handle_text e dev s t =
           (if loads e s = None then [LogInvalidJSON (take 100 s)]
            else if (\<exists>kvs. loads e s = Some (JObj kvs)) then []
            else [LogError AttributeError]) \<and>
         (\<forall>ev \<in> set (handle_text e dev s t). \<not> is_sink ev) \<and>
         (\<forall>v. Closed v \<notin> set (handle_text e dev s t))"
proof -
  note u = handle_text_unusable [OF assms(1), of dev t]
  have "route e dev ((TEXT s, t) # (TEXT s', t') # rest) =
           handle_text e dev s t @
           LogFlashlight dev (if truthy (get_item kvs' ''status'' JNull) then ''ON'' else ''OFF'') t' #
           route e dev rest"
    by (simp add: handle_text_flashlight [OF assms(2,3)])
  moreover have "\<forall>ev \<in> set (handle_text e dev s t). \<not> is_sink ev"
    unfolding u by simp
  moreover have "\<forall>v. Closed v \<notin> set (handle_text e dev s t)"
    unfolding u by simp
  ultimately show ?thesis using u by blast
qed

text \<open>
  A frame with the unknown type \<^verbatim>\<open>unknown_xyz\<close> and a text that is not JSON, each followed
  by a flashlight message on the connection of device \<^verbatim>\<open>X\<close>.
\<close>

theorem malformed_frame_resilience_witness:
  \<open>route env0 (JStr ''X'')
     [(TEXT ''{"type": "unknown_xyz"}'', ''t1''),
      (TEXT ''{"type": "flashlight", "status": true}'', ''t2'')] =
     [LogFlashlight (JStr ''X'') ''ON'' ''t2''] \<and>
   route env0 (JStr ''X'')
     [(TEXT ''not json'', ''t1''),
      (TEXT ''{"type": "flashlight", "status": true}'', ''t2'')] =
     [LogInvalidJSON ''not json'', LogFlashlight (JStr ''X'') ''ON'' ''t2'']\<close>
proof -
  have a: \<open>loads env0 ''{"type": "unknown_xyz"}'' = Some (JObj [(''type'', JStr ''unknown_xyz'')])\<close>
    by (simp add: env0_def loads0_def)
  have b: \<open>loads env0 ''not json'' = None\<close>
    by (simp add: env0_def loads0_def)
  have f: \<open>loads env0 ''{"type": "flashlight", "status": true}'' =
             Some (JObj [(''type'', JStr ''flashlight''), (''status'', JBool True)])\<close>
    by (simp add: env0_def loads0_def)
  have ft: "get_item [(''type'', JStr ''flashlight''), (''status'', JBool True)] ''type'' JNull =
              JStr ''flashlight''"
    by (simp add: get_item_def)
  have fs: "truthy (get_item [(''type'', JStr ''flashlight''), (''status'', JBool True)] ''status'' JNull)"
    by (simp add: get_item_def)
  have a': \<open>loads env0 ''{"type": "unknown_xyz"}'' = None \<or>
             (\<exists>v. loads env0 ''{"type": "unknown_xyz"}'' = Some v \<and> (\<forall>kvs. v \<noteq> JObj kvs)) \<or>
             (\<exists>kvs. loads env0 ''{"type": "unknown_xyz"}'' = Some (JObj kvs) \<and>
                get_item kvs ''type'' JNull \<notin>
                  {JStr ''screen_capture'', JStr ''notification'', JStr ''flashlight'',
                   JStr ''command_response''})\<close>
    unfolding a by (simp add: get_item_def)
  have b': \<open>loads env0 ''not json'' = None \<or>
             (\<exists>v. loads env0 ''not json'' = Some v \<and> (\<forall>kvs. v \<noteq> JObj kvs)) \<or>
             (\<exists>kvs. loads env0 ''not json'' = Some (JObj kvs) \<and>
                get_item kvs ''type'' JNull \<notin>
                  {JStr ''screen_capture'', JStr ''notification'', JStr ''flashlight'',
                   JStr ''command_response''})\<close>
    unfolding b by simp
  have r: "route env0 (JStr ''X'') [] = []" by simp
  show ?thesis
    using malformed_frame_resilience [OF a' f ft, of "JStr ''X''" "''t1''" "''t2''" "[]"]
      malformed_frame_resilience [OF b' f ft, of "JStr ''X''" "''t1''" "''t2''" "[]"]
    unfolding r using fs a b by simp
qed

section \<open>Requests with missing fields\<close>

text \<open>
  C9. A request body that is a dict is never refused for a missing field: an absent
  \<^verbatim>\<open>device_id\<close> is read as the string \<^verbatim>\<open>default\<close>, an absent \<^verbatim>\<open>command\<close> as \<^verbatim>\<open>None\<close>, an
  absent \<^verbatim>\<open>params\<close> as the empty dict, and the command with these values is queued when no
  connection carries the device and sent when one does. The only dict bodies answered
  with status 500 are those whose \<^verbatim>\<open>device_id\<close> is present, unhashable and not
  registered, and those whose send raises.
\<close>

theorem lenient_dispatch_input:
  assumes "loads e raw = Some (JObj kvs)"
    and "d = (case map_of kvs ''device_id'' of None \<Rightarrow> JStr ''default'' | Some v \<Rightarrow> v)"
    and "c = (case map_of kvs ''command'' of None \<Rightarrow> JNull | Some v \<Rightarrow> v)"
    and "p = (case map_of kvs ''params'' of None \<Rightarrow> JObj [] | Some v \<Rightarrow> v)"
  shows "(find_target (connected_clients st) d = None \<longrightarrow> key_of d = Some k \<longrightarrow>
            send_command e st raw now send_ok =
              (\<lparr>status = 200,
                body = JObj [(''status'', JStr ''queued''),
                             (''message'', JStr ''Device not connected, command queued'')]\<rparr>,
               st\<lparr>device_commands := (device_commands st)
                    (k \<mapsto> backlog st k @ [\<lparr>command = c, params = p, timestamp = now\<rparr>])\<rparr>)) \<and>
         (find_target (connected_clients st) d = Some w \<longrightarrow>
            send_command e st raw now True =
              (\<lparr>status = 200, body = JObj [(''status'', JStr ''sent''), (''command'', c)]\<rparr>,
               emit st [Sent w (dumps e (command_msg c p now)), LogCommandSent d c])) \<and>
         (map_of kvs ''device_id'' = None \<longrightarrow> key_of d = Some (KStr ''default'')) \<and>
         (status (fst (send_command e st raw now send_ok)) = 200 \<or>
          (find_target (connected_clients st) d = None \<and> key_of d = None) \<or>
          (find_target (connected_clients st) d \<noteq> None \<and> \<not> send_ok))"
proof -
  have d: "get_item kvs ''device_id'' (JStr ''default'') = d"
    and c: "get_item kvs ''command'' JNull = c"
    and p: "get_item kvs ''params'' (JObj []) = p"
    using assms(2,3,4) by (simp_all add: get_item_def)
  have sc: "send_command_try e st raw now b = dispatch e st d c p now b" for b
    using send_command_try_object [OF assms(1)] d c p by simp
  have q: "find_target (connected_clients st) d = None \<longrightarrow> key_of d = Some k \<longrightarrow>
            send_command e st raw now send_ok =
              (\<lparr>status = 200,
                body = JObj [(''status'', JStr ''queued''),
                             (''message'', JStr ''Device not connected, command queued'')]\<rparr>,
               st\<lparr>device_commands := (device_commands st)
                    (k \<mapsto> backlog st k @ [\<lparr>command = c, params = p, timestamp = now\<rparr>])\<rparr>)"
    by (simp add: send_command_def sc dispatch_def json_response_def)
  have s: "find_target (connected_clients st) d = Some w \<longrightarrow>
            send_command e st raw now True =
              (\<lparr>status = 200, body = JObj [(''status'', JStr ''sent''), (''command'', c)]\<rparr>,
               emit st [Sent w (dumps e (command_msg c p now)), LogCommandSent d c])"
    by (simp add: send_command_def sc dispatch_def json_response_def)
  have k: "map_of kvs ''device_id'' = None \<longrightarrow> key_of d = Some (KStr ''default'')"
    using assms(2) by simp
  have r: "status (fst (send_command e st raw now send_ok)) = 200 \<or>
          (find_target (connected_clients st) d = None \<and> key_of d = None) \<or>
          (find_target (connected_clients st) d \<noteq> None \<and> \<not> send_ok)"
    by (auto simp: send_command_def sc dispatch_def json_response_def split: option.splits)
  show ?thesis using q s k r by blast
qed

text \<open>The empty request \<^verbatim>\<open>{}\<close>, with nobody connected: queued for \<^verbatim>\<open>default\<close>.\<close>

theorem lenient_dispatch_input_witness:
  "fst (send_command env0 init_state ''{}'' ''t0'' True) =
     \<lparr>status = 200,
      body = JObj [(''status'', JStr ''queued''),
                   (''message'', JStr ''Device not connected, command queued'')]\<rparr> \<and>
   device_commands (snd (send_command env0 init_state ''{}'' ''t0'' True)) (KStr ''default'') =
     Some [\<lparr>command = JNull, params = JObj [], timestamp = ''t0''\<rparr>]"
proof -
  have l: "loads env0 ''{}'' = Some (JObj [])" by (simp add: env0_def loads0_def)
  have d: "JStr ''default'' = (case map_of ([] :: (string \<times> json) list) ''device_id'' of
             None \<Rightarrow> JStr ''default'' | Some v \<Rightarrow> v)"
    and c: "JNull = (case map_of ([] :: (string \<times> json) list) ''command'' of
             None \<Rightarrow> JNull | Some v \<Rightarrow> v)"
    and p: "JObj [] = (case map_of ([] :: (string \<times> json) list) ''params'' of
             None \<Rightarrow> JObj [] | Some v \<Rightarrow> v)"
    by simp_all
  have miss: "find_target (connected_clients init_state) (JStr ''default'') = None"
    by (simp add: init_state_def)
  have k: "key_of (JStr ''default'') = Some (KStr ''default'')" by simp
  have b: "backlog init_state (KStr ''default'') = []" by (simp add: backlog_def init_state_def)
  show ?thesis
    using lenient_dispatch_input [OF l d c p, of init_state "KStr ''default''" "''t0''" True]
      miss k unfolding b by simp
qed


section \<open>Timestamps of queued and of direct commands\<close>

text \<open>
  C10. A command that \<^verbatim>\<open>send_command\<close> queues at time \<open>t_enq\<close> is stored with that time;
  when the device registers at time \<open>t_conn\<close>, the message replayed for it carries the
  stored command, parameters and \<open>t_enq\<close>, after the messages of the earlier backlog, each
  with the fields of its own entry; \<open>t_conn\<close> appears in none of them. A command sent at
  once to a registered device at time \<open>t_send\<close> carries \<open>t_send\<close>.
\<close>

theorem timestamp_provenance:
  assumes "loads e raw = Some (JObj kvs)"
    and "get_item kvs ''device_id'' (JStr ''default'') = d"
    and "get_item kvs ''command'' JNull = c"
    and "get_item kvs ''params'' (JObj []) = p"
  shows "(find_target (connected_clients st) d = None \<longrightarrow> key_of d = Some k \<longrightarrow>
            loads e s' = Some (JObj rkvs) \<longrightarrow>
            get_item rkvs ''device_id''
              (JStr (''device_'' @ str_nat (length (connected_clients st)))) = d' \<longrightarrow>
            key_of d' = Some k \<longrightarrow> (\<forall>j\<le>length (backlog st k). ok j) \<longrightarrow>
              backlog (snd (send_command e st raw t_enq send_ok)) k =
                backlog st k @ [\<lparr>command = c, params = p, timestamp = t_enq\<rparr>] \<and>
              trace (snd (snd (handshake e (snd (send_command e st raw t_enq send_ok))
                                 w' addr (Recv (TEXT s')) t_conn ok))) =
                trace st @ LogConnected d' addr #
                  map (\<lambda>q. Sent w' (dumps e
                         (JObj [(''type'', JStr ''remote_command''), (''command'', command q),
                                (''params'', params q), (''timestamp'', JStr (timestamp q))])))
                    (backlog st k) @
                  [Sent w' (dumps e
                         (JObj [(''type'', JStr ''remote_command''), (''command'', c),
                                (''params'', p), (''timestamp'', JStr t_enq)])),
                   LogQueuedSent (Suc (length (backlog st k))) d']) \<and>
         (find_target (connected_clients st) d = Some w \<longrightarrow>
            trace (snd (send_command e st raw t_send True)) =
              trace st @
                [Sent w (dumps e
                         (JObj [(''type'', JStr ''remote_command''), (''command'', c),
                                (''params'', p), (''timestamp'', JStr t_send)])),
                 LogCommandSent d c])"
proof (intro conjI impI)
  assume miss: "find_target (connected_clients st) d = None" and k: "key_of d = Some k"
    and reg: "loads e s' = Some (JObj rkvs)"
    and d': "get_item rkvs ''device_id''
              (JStr (''device_'' @ str_nat (length (connected_clients st)))) = d'"
    and k': "key_of d' = Some k" and ok: "\<forall>j\<le>length (backlog st k). ok j"
  let ?st' = "st\<lparr>device_commands := (device_commands st)
                 (k \<mapsto> backlog st k @ [\<lparr>command = c, params = p, timestamp = t_enq\<rparr>])\<rparr>"
  have sc: "snd (send_command e st raw t_enq send_ok) = ?st'"
    using send_command_miss [OF assms(1), of st k t_enq send_ok] miss k
    unfolding assms(2,3,4) by simp
  have b': "backlog ?st' k = backlog st k @ [\<lparr>command = c, params = p, timestamp = t_enq\<rparr>]"
    by (simp add: backlog_def)
  show "backlog (snd (send_command e st raw t_enq send_ok)) k =
          backlog st k @ [\<lparr>command = c, params = p, timestamp = t_enq\<rparr>]"
    unfolding sc by (rule b')
  have d'': "get_item rkvs ''device_id''
               (JStr (''device_'' @ str_nat (length (connected_clients ?st')))) = d'"
    using d' by simp
  have ok': "\<forall>j<length (backlog ?st' k). ok j" unfolding b' using ok by simp
  show "trace (snd (snd (handshake e (snd (send_command e st raw t_enq send_ok))
                                 w' addr (Recv (TEXT s')) t_conn ok))) =
                trace st @ LogConnected d' addr #
                  map (\<lambda>q. Sent w' (dumps e
                         (JObj [(''type'', JStr ''remote_command''), (''command'', command q),
                                (''params'', params q), (''timestamp'', JStr (timestamp q))])))
                    (backlog st k) @
                  [Sent w' (dumps e
                         (JObj [(''type'', JStr ''remote_command''), (''command'', c),
                                (''params'', p), (''timestamp'', JStr t_enq)])),
                   LogQueuedSent (Suc (length (backlog st k))) d']"
    unfolding sc handshake_drain_ok [OF reg d'' k' ok'] b'
    by (simp add: replay_msg_def command_msg_def)
next
  assume hit: "find_target (connected_clients st) d = Some w"
  show "trace (snd (send_command e st raw t_send True)) =
              trace st @
                [Sent w (dumps e
                         (JObj [(''type'', JStr ''remote_command''), (''command'', c),
                                (''params'', p), (''timestamp'', JStr t_send)])),
                 LogCommandSent d c]"
    using send_command_hit_ok [OF assms(1), of st w t_send] hit
    unfolding assms(2,3,4) by (simp add: command_msg_def)
qed

text \<open>
  A command queued at \<^verbatim>\<open>t0\<close> and replayed to a connection made at \<^verbatim>\<open>t5\<close> carries \<^verbatim>\<open>t0\<close>;
  the same command sent at \<^verbatim>\<open>t5\<close> to a connected device carries \<^verbatim>\<open>t5\<close>; the two frames
  differ.
\<close>

theorem timestamp_provenance_witness:
  "trace (snd (snd (handshake env0 (snd (send_command env0 init_state lock_X ''t0'' True))
                      11 ''10.0.0.1'' (Recv (TEXT reg_X)) ''t5'' (\<lambda>i. True)))) =
     [LogConnected (JStr ''X'') ''10.0.0.1'',
      Sent 11 (dumps0 (JObj [(''type'', JStr ''remote_command''), (''command'', JStr ''lock''),
                             (''params'', JObj []), (''timestamp'', JStr ''t0'')])),
      LogQueuedSent 1 (JStr ''X'')] \<and>
   trace (snd (send_command env0 one_device lock_X ''t5'' True)) =
     trace one_device @
     [Sent 11 (dumps0 (JObj [(''type'', JStr ''remote_command''), (''command'', JStr ''lock''),
                             (''params'', JObj []), (''timestamp'', JStr ''t5'')])),
      LogCommandSent (JStr ''X'') (JStr ''lock'')] \<and>
   dumps0 (JObj [(''type'', JStr ''remote_command''), (''command'', JStr ''lock''),
                 (''params'', JObj []), (''timestamp'', JStr ''t0'')]) \<noteq>
   dumps0 (JObj [(''type'', JStr ''remote_command''), (''command'', JStr ''lock''),
                 (''params'', JObj []), (''timestamp'', JStr ''t5'')])"
proof -
  let ?kvs = "[(''device_id'', JStr ''X''), (''command'', JStr ''lock'')]"
  have d: "get_item ?kvs ''device_id'' (JStr ''default'') = JStr ''X''"
    and c: "get_item ?kvs ''command'' JNull = JStr ''lock''"
    and p: "get_item ?kvs ''params'' (JObj []) = JObj []"
    by (simp_all add: get_item_def)
  have miss: "find_target (connected_clients init_state) (JStr ''X'') = None"
    by (simp add: init_state_def)
  have k: "key_of (JStr ''X'') = Some (KStr ''X'')" by simp
  have d': "get_item [(''device_id'', JStr ''X'')] ''device_id''
              (JStr (''device_'' @ str_nat (length (connected_clients init_state)))) = JStr ''X''"
    by (simp add: get_item_def)
  have b0: "backlog init_state (KStr ''X'') = []" by (simp add: backlog_def init_state_def)
  have t0: "trace init_state = []" by (simp add: init_state_def)
  have dumps: "dumps env0 = dumps0" by (simp add: env0_def)
  have ok: "\<forall>j\<le>length (backlog init_state (KStr ''X'')). (\<lambda>i. True) j" by simp
  note q = timestamp_provenance [OF lock_X_loads d c p, of init_state "KStr ''X''" reg_X
      "[(''device_id'', JStr ''X'')]" "JStr ''X''" "\<lambda>i. True" "''t0''" True 11 "''10.0.0.1''" "''t5''"]
  note s = timestamp_provenance [OF lock_X_loads d c p, of one_device _ _ _ _ _ _ _ _ _ _ 11 "''t5''"]
  have q1: "trace (snd (snd (handshake env0 (snd (send_command env0 init_state lock_X ''t0'' True))
                      11 ''10.0.0.1'' (Recv (TEXT reg_X)) ''t5'' (\<lambda>i. True)))) =
     [LogConnected (JStr ''X'') ''10.0.0.1'',
      Sent 11 (dumps0 (JObj [(''type'', JStr ''remote_command''), (''command'', JStr ''lock''),
                             (''params'', JObj []), (''timestamp'', JStr ''t0'')])),
      LogQueuedSent 1 (JStr ''X'')]"
    using q miss k reg_X_loads d' ok unfolding b0 t0 dumps by simp
  have s1: "trace (snd (send_command env0 one_device lock_X ''t5'' True)) =
     trace one_device @
     [Sent 11 (dumps0 (JObj [(''type'', JStr ''remote_command''), (''command'', JStr ''lock''),
                             (''params'', JObj []), (''timestamp'', JStr ''t5'')])),
      LogCommandSent (JStr ''X'') (JStr ''lock'')]"
    using s one_device_target unfolding dumps by blast
  have ne: "dumps0 (JObj [(''type'', JStr ''remote_command''), (''command'', JStr ''lock''),
                 (''params'', JObj []), (''timestamp'', JStr ''t0'')]) \<noteq>
   dumps0 (JObj [(''type'', JStr ''remote_command''), (''command'', JStr ''lock''),
                 (''params'', JObj []), (''timestamp'', JStr ''t5'')])"
    by simp
  show ?thesis using q1 s1 ne by blast
qed

end
